theory Spec2Isabelle
  imports Main "HOL-Library.Word"
begin

section \<open>Values of the JavaScript program\<close>

text \<open>
  A JavaScript string is a sequence of UTF-16 code units; \<open>.length\<close> counts them.
  The niche, URLs and every string inside a JSON value are of this type. Names the
  program fixes itself (identifiers handed out by providers, error messages, task and
  competitor names) are plain HOL strings.
\<close>

type_synonym jsstring = "16 word list"

definition js :: "string \<Rightarrow> jsstring" where
  "js s = map of_char s"

text \<open>
  \<open>String.prototype.trim\<close> removes white space and line terminators from both ends
  (ECMAScript: TAB, LF, VT, FF, CR, SP, NBSP, U+1680, U+2000 to U+200A, U+2028, U+2029,
  U+202F, U+205F, U+3000, U+FEFF).
\<close>

definition is_ws :: "16 word \<Rightarrow> bool" where
  "is_ws c =
     (c \<in> set [9, 10, 11, 12, 13, 32, 160, 5760, 8232, 8233, 8239, 8287, 12288, 65279]
      \<or> (8192 \<le> c \<and> c \<le> 8202))"

definition trim :: "jsstring \<Rightarrow> jsstring" where
  "trim s = rev (dropWhile is_ws (rev (dropWhile is_ws s)))"

text \<open>\<open>haystack.includes(needle)\<close> on strings.\<close>

fun js_includes :: "'a list \<Rightarrow> 'a list \<Rightarrow> bool" where
  "js_includes [] needle = (needle = [])"
| "js_includes (c # cs) needle =
     (take (length needle) (c # cs) = needle \<or> js_includes cs needle)"

text \<open>
  Dynamically typed data: the request body and whatever \<open>JSON.parse\<close> makes of the
  Reasoning Provider's text. Numbers are kept as integers (no property below computes
  with them). Object keys are HOL strings: the program reads fixed ASCII keys only.
\<close>

datatype json =
    JUndefined
  | JNull
  | JBool bool
  | JNum int
  | JStr jsstring
  | JArr "json list"
  | JObj "(string \<times> json) list"

fun truthy :: "json \<Rightarrow> bool" where
  "truthy JUndefined = False"
| "truthy JNull = False"
| "truthy (JBool b) = b"
| "truthy (JNum n) = (n \<noteq> 0)"
| "truthy (JStr s) = (s \<noteq> [])"
| "truthy (JArr xs) = True"
| "truthy (JObj kvs) = True"

fun nullish :: "json \<Rightarrow> bool" where
  "nullish JUndefined = True"
| "nullish JNull = True"
| "nullish v = False"

text \<open>\<open>v?.k\<close> for one of the keys the program reads (none of them is a built-in
  property of strings or arrays).\<close>

fun opt_get :: "json \<Rightarrow> string \<Rightarrow> json" where
  "opt_get (JObj kvs) k = (case map_of kvs k of None \<Rightarrow> JUndefined | Some v \<Rightarrow> v)"
| "opt_get v k = JUndefined"

fun isArray :: "json \<Rightarrow> bool" where
  "isArray (JArr xs) = True"
| "isArray v = False"

text \<open>\<open>a ?? b\<close>\<close>

definition nullish_or :: "json \<Rightarrow> json \<Rightarrow> json" where
  "nullish_or a b = (if nullish a then b else a)"

text \<open>An exception is represented by its message (\<open>err.message\<close>).\<close>

type_synonym error = string

section \<open>utils/helpers.js\<close>

text \<open>
  \<open>dedupeBy(arr, keyFn)\<close>: a filter over \<open>arr\<close> with the set \<open>seen\<close> of keys
  met so far. The keys are strings: a JavaScript \<open>Set\<close> compares strings by their
  contents, which is the equality of \<open>jsstring\<close>. Keys that are objects, which a
  \<open>Set\<close> compares by identity, are not covered.
\<close>

fun dedupeBy_filter :: "('a \<Rightarrow> jsstring) \<Rightarrow> jsstring set \<Rightarrow> 'a list \<Rightarrow> 'a list" where
  "dedupeBy_filter keyFn seen [] = []"
| "dedupeBy_filter keyFn seen (item # rest) =
     (let key = keyFn item in
      if key \<in> seen then dedupeBy_filter keyFn seen rest
      else item # dedupeBy_filter keyFn (insert key seen) rest)"

definition dedupeBy :: "'a list \<Rightarrow> ('a \<Rightarrow> jsstring) \<Rightarrow> 'a list" where
  "dedupeBy arr keyFn = dedupeBy_filter keyFn {} arr"

section \<open>services/brightDataService.js: search results\<close>

text \<open>
  A search result \<open>{url, title, snippet}\<close>; a scraped post is the same object with
  \<open>content\<close>.
\<close>

record doc =
  url :: jsstring
  title :: jsstring
  snippet :: jsstring
  content :: "jsstring option"

text \<open>
  The closing filter of \<open>searchRedditPainPoints\<close>:
  \<^verbatim>\<open>const seen = new Set();
  const unique = allResults.filter(({ url }) => {
    if (!url || seen.has(url)) return false;
    seen.add(url); return true; });\<close>
  \<open>!url\<close> holds of the empty string.
\<close>

fun unique_filter :: "jsstring set \<Rightarrow> doc list \<Rightarrow> doc list" where
  "unique_filter seen [] = []"
| "unique_filter seen (r # rest) =
     (if url r = [] \<or> url r \<in> seen then unique_filter seen rest
      else r # unique_filter (insert (url r) seen) rest)"

section \<open>The environment and the state of the process\<close>

datatype phase = Scout | Brain | Validate | Brief

datatype task_id =
  extract_pain_points | rank_and_select | verify_competitor_gaps | generate_opportunity_brief

datatype task_status = T_pending | T_running | T_complete | T_error

record task_block =
  tb_id :: task_id
  tb_label :: string
  tb_status :: task_status

text \<open>The status of a run record: \<open>'running'\<close>, \<open>'complete'\<close>,
  \<open>'complete_with_warnings'\<close>, \<open>'error'\<close>.\<close>

datatype run_status = S_running | S_complete | S_complete_with_warnings | S_error

text \<open>
  What the orchestrator reads of a competitor check's result. \<open>cr_screenshot\<close> is
  \<open>None\<close> for \<open>null\<close> and for a result whose screenshot was stripped.
\<close>

record competitor_result =
  cr_name :: string
  cr_pricingUrl :: jsstring
  cr_screenshot :: "string option"
  cr_success :: bool
  cr_notes :: string
  cr_scrapedContent :: "jsstring option"

text \<open>
  The task blocks of a session are one array object that \<open>updateTaskBlock\<close> mutates in
  place and that \<open>getTaskBlocks\<close> hands out by reference, so they live in a heap.
  \<open>NoBlocks\<close> is the fresh \<open>[]\<close> of \<open>taskState.get(sessionId) ?? []\<close>.
\<close>

datatype blocks_ref = BlocksAt nat | NoBlocks

text \<open>
  The report object of the report store. A field is \<open>None\<close> when the key is absent.
  The type parameter is the representation of \<open>taskBlocks\<close>: a reference in the
  store, the array's content in a serialised report.
\<close>

record 'b report_of =
  rp_runId :: "string option"
  rp_niche :: "jsstring option"
  rp_sessionId :: "string option"
  rp_spaceId :: "string option option"
  rp_status :: "run_status option"
  rp_painPoints :: "json option"
  rp_topProblem :: "json option"
  rp_competitorResults :: "competitor_result list option"
  rp_gapAnalysis :: "json option"
  rp_opportunityBrief :: "json option"
  rp_completedAt :: "nat option"
  rp_taskBlocks :: "'b option"
  rp_updatedAt :: "nat option"

type_synonym report = "blocks_ref report_of"
type_synonym report_json = "task_block list report_of"

definition empty_report :: "'b report_of" where
  "empty_report =
     \<lparr>rp_runId = None, rp_niche = None, rp_sessionId = None, rp_spaceId = None,
      rp_status = None, rp_painPoints = None, rp_topProblem = None,
      rp_competitorResults = None, rp_gapAnalysis = None, rp_opportunityBrief = None,
      rp_completedAt = None, rp_taskBlocks = None, rp_updatedAt = None\<rparr>"

definition or_else :: "'a option \<Rightarrow> 'a option \<Rightarrow> 'a option" where
  "or_else new old = (case new of None \<Rightarrow> old | Some v \<Rightarrow> Some v)"

text \<open>\<open>{...a, ...b}\<close>: the keys of \<open>b\<close> override those of \<open>a\<close>.\<close>

definition spread :: "'b report_of \<Rightarrow> 'b report_of \<Rightarrow> 'b report_of" where
  "spread a b =
     \<lparr>rp_runId = or_else (rp_runId b) (rp_runId a),
      rp_niche = or_else (rp_niche b) (rp_niche a),
      rp_sessionId = or_else (rp_sessionId b) (rp_sessionId a),
      rp_spaceId = or_else (rp_spaceId b) (rp_spaceId a),
      rp_status = or_else (rp_status b) (rp_status a),
      rp_painPoints = or_else (rp_painPoints b) (rp_painPoints a),
      rp_topProblem = or_else (rp_topProblem b) (rp_topProblem a),
      rp_competitorResults = or_else (rp_competitorResults b) (rp_competitorResults a),
      rp_gapAnalysis = or_else (rp_gapAnalysis b) (rp_gapAnalysis a),
      rp_opportunityBrief = or_else (rp_opportunityBrief b) (rp_opportunityBrief a),
      rp_completedAt = or_else (rp_completedAt b) (rp_completedAt a),
      rp_taskBlocks = or_else (rp_taskBlocks b) (rp_taskBlocks a),
      rp_updatedAt = or_else (rp_updatedAt b) (rp_updatedAt a)\<rparr>"

text \<open>
  Progress events, by their \<open>type\<close>, with the payload fields the properties speak
  about. The display text \<open>message\<close>, previews, and the \<open>runId\<close> and
  \<open>timestamp\<close> every event is wrapped with are left out. \<open>PhaseWarning\<close> and
  \<open>ErrorEvent\<close> carry \<open>err.message\<close>. \<open>Done sessionId warnings durationMs\<close>:
  a field is \<open>None\<close> when the payload lacks it (\<open>durationMs\<close> also when it is NaN).
\<close>

datatype event =
    RunStart jsstring
  | SessionCreated string "string option" "task_block list"
  | PhaseStart phase
  | PhaseComplete phase
  | PhaseWarning phase error
  | SearchComplete nat
  | ScrapeComplete nat
  | TaskUpdate task_id task_status
  | PainPointsExtracted json "json list"
  | TopProblemSelected json
  | BrowserAction string string
  | GapAnalysisComplete json
  | ReportReady "report_json option" "(string \<times> string option) list"
  | Done "string option" "nat option" "int option"
  | ErrorEvent error

datatype log_level = Warn | Err

text \<open>
  The observable history of the process, in order: an event emitted on an emitter
  (emitters are objects, named here by a number), a write of a run's status to the
  registry, a line of \<open>logger.warn\<close> or \<open>logger.error\<close> (the lines of
  \<open>logger.info\<close>, \<open>success\<close> and \<open>phase\<close> are left out).
\<close>

datatype trace_entry =
    Emit nat event
  | RegistrySet string "run_status option"
  | Log log_level string

text \<open>A registry entry; a field is \<open>None\<close> when the object lacks the key.\<close>

record run_record =
  run_emitter :: "nat option"
  run_status :: "run_status option"
  run_niche :: "jsstring option"
  run_startedAt :: "nat option"
  run_sessionId :: "string option"

text \<open>The call of \<open>runGraph\<close> that \<open>startRun\<close> leaves running.\<close>

record task =
  t_runId :: string
  t_niche :: jsstring
  t_emitter :: nat

text \<open>A competitor target of \<open>COMPETITOR_TARGETS\<close>.\<close>

record competitor =
  c_name :: string
  c_pricingUrl :: jsstring
  c_featuresUrl :: jsstring
  c_backup :: jsstring

text \<open>What one call of \<open>checkCompetitorGap\<close> does, as far as the orchestrator can
  tell: the \<open>action\<close> of each \<open>browser_action\<close> event it emits, then its result or
  the exception that leaves it.\<close>

record check_outcome =
  co_actions :: "string list"
  co_result :: "error + competitor_result"

record scraped =
  sc_content :: jsstring
  sc_success :: bool

text \<open>
  Everything outside the program: the process environment, the clock, the random
  identifiers, built-ins of the language, and the answer of each call to a provider.
  A call is identified by the number of interactions with the outside before it
  (\<open>tick\<close>), so two calls of one operation may answer differently. A call answers
  \<open>Inr\<close> a value or \<open>Inl\<close> the message of the exception it throws; a call that never
  answers is outside this model.

  The SDK calls of the Memory Store and of the Reasoning Provider are modelled one by
  one. Of \<open>brightDataService.js\<close> the search strategies behind
  \<open>searchRedditPainPoints\<close>, \<open>scrapeRedditPosts\<close>, \<open>scrapeCompetitorPage\<close> and
  \<open>closeBrightData\<close>, and of \<open>actionbookService.js\<close> \<open>checkCompetitorGap\<close>, are
  taken by their outcome (any result, any exception).
\<close>

record world =
  OPENAI_API_KEY :: bool
  ACONTEXT_API_KEY :: bool
  uuidv4 :: "nat \<Rightarrow> string"
  Date_now :: "nat \<Rightarrow> nat"
  JSON_parse :: "string \<Rightarrow> error + json"
  strip_code_fences :: "string \<Rightarrow> string"
  match_json :: "string \<Rightarrow> string option"
  sessions_create :: "nat \<Rightarrow> error + string"
  sessions_storeMessage :: "nat \<Rightarrow> error + unit"
  sessions_flush :: "nat \<Rightarrow> error + unit"
  sessions_getSessionSummary :: "nat \<Rightarrow> error + unit"
  learningSpaces_create :: "nat \<Rightarrow> error + string"
  learningSpaces_learn :: "nat \<Rightarrow> error + unit"
  chat_completions_create :: "nat \<Rightarrow> error + string"
  searchRedditJSON :: "nat \<Rightarrow> error + doc list"
  searchRedditWithWebData :: "nat \<Rightarrow> error + doc list"
  searchWeb :: "nat \<Rightarrow> error + doc list"
  searchRedditDirect :: "nat \<Rightarrow> error + doc list"
  scrapeRedditPosts_out :: "nat \<Rightarrow> doc list \<Rightarrow> error + doc list"
  scrapeCompetitorPage_out :: "nat \<Rightarrow> scraped"
  closeBrightData_out :: "nat \<Rightarrow> error + unit"
  checkCompetitorGap_out :: "nat \<Rightarrow> check_outcome"

text \<open>
  The module-level state of the backend: \<open>activeRuns\<close> (agentOrchestrator.js),
  \<open>reportStore\<close>, \<open>taskState\<close> and \<open>_client\<close> (acontextService.js),
  \<open>_client\<close> (llmService.js); the heap of task-block arrays; the calls of
  \<open>runGraph\<close> started and not yet run; the history.
\<close>

record sys =
  tick :: nat
  activeRuns :: "string \<rightharpoonup> run_record"
  reportStore :: "string \<rightharpoonup> report"
  taskState :: "string \<rightharpoonup> nat"
  blocksHeap :: "nat \<rightharpoonup> task_block list"
  llm_client :: bool
  acontext_client :: bool
  pending :: "task list"
  trace :: "trace_entry list"

definition ask :: "(nat \<Rightarrow> 'a) \<Rightarrow> sys \<Rightarrow> 'a \<times> sys" where
  "ask f s = (f (tick s), s\<lparr>tick := Suc (tick s)\<rparr>)"

definition emit :: "nat \<Rightarrow> event \<Rightarrow> sys \<Rightarrow> sys" where
  "emit emitter ev s = s\<lparr>trace := trace s @ [Emit emitter ev]\<rparr>"

definition logger :: "log_level \<Rightarrow> string \<Rightarrow> sys \<Rightarrow> sys" where
  "logger level msg s = s\<lparr>trace := trace s @ [Log level msg]\<rparr>"

text \<open>The events of one emitter in a history.\<close>

fun events_of :: "nat \<Rightarrow> trace_entry list \<Rightarrow> event list" where
  "events_of emitter [] = []"
| "events_of emitter (Emit e ev # tr) =
     (if e = emitter then ev # events_of emitter tr else events_of emitter tr)"
| "events_of emitter (x # tr) = events_of emitter tr"

text \<open>What was added to the history between an earlier state and a later one.\<close>

definition added :: "sys \<Rightarrow> sys \<Rightarrow> trace_entry list" where
  "added s s' = drop (length (trace s)) (trace s')"

subsection \<open>Sequencing\<close>

text \<open>
  An asynchronous function is a function of the state that returns its value or the
  exception it throws, and the new state. \<open>andThen m f\<close> is
  \<open>const v = await m; f(v)\<close>.
\<close>

type_synonym 'a io = "sys \<Rightarrow> (error + 'a) \<times> sys"

definition ret :: "'a \<Rightarrow> 'a io" where
  "ret v s = (Inr v, s)"

definition andThen :: "'a io \<Rightarrow> ('a \<Rightarrow> 'b io) \<Rightarrow> 'b io" where
  "andThen m f s = (case m s of (Inl e, s') \<Rightarrow> (Inl e, s') | (Inr v, s') \<Rightarrow> f v s')"

definition lift :: "(sys \<Rightarrow> sys) \<Rightarrow> unit io" where
  "lift g s = (Inr (), g s)"

definition total :: "(sys \<Rightarrow> 'a \<times> sys) \<Rightarrow> 'a io" where
  "total f s = (case f s of (v, s') \<Rightarrow> (Inr v, s'))"

text \<open>
  The body of a \<open>try\<close> block is a list of statements over the local variables the
  handler can see. The first statement that throws ends the block; the locals keep
  what was assigned before.
\<close>

type_synonym 'l step = "'l \<Rightarrow> sys \<Rightarrow> (error option \<times> 'l) \<times> sys"

fun run_steps :: "'l step list \<Rightarrow> 'l step" where
  "run_steps [] l s = ((None, l), s)"
| "run_steps (f # fs) l s =
     (case f l s of
        ((Some e, l'), s') \<Rightarrow> ((Some e, l'), s')
      | ((None, l'), s') \<Rightarrow> run_steps fs l' s')"

definition stmt :: "('l \<Rightarrow> sys \<Rightarrow> sys) \<Rightarrow> 'l step" where
  "stmt g l s = ((None, l), g l s)"

definition await :: "('l \<Rightarrow> 'a io) \<Rightarrow> ('a \<Rightarrow> 'l \<Rightarrow> 'l) \<Rightarrow> 'l step" where
  "await f assign l s =
     (case f l s of
        (Inl e, s') \<Rightarrow> ((Some e, l), s')
      | (Inr v, s') \<Rightarrow> ((None, assign v l), s'))"

text \<open>The message of an exception the engine raises itself (its wording is the
  engine's).\<close>

definition TypeError :: error where
  "TypeError = ''TypeError''"

section \<open>services/acontextService.js\<close>

definition acontext_getClient :: "world \<Rightarrow> unit io" where
  "acontext_getClient w s =
     (if acontext_client s then (Inr (), s)
      else if \<not> ACONTEXT_API_KEY w then (Inl ''ACONTEXT_API_KEY is not set in .env'', s)
      else (Inr (), s\<lparr>acontext_client := True\<rparr>))"

text \<open>\<open>createSession(niche)\<close> returns the session; the model keeps its \<open>id\<close>.\<close>

definition createSession :: "world \<Rightarrow> jsstring \<Rightarrow> string io" where
  "createSession w niche =
     andThen (acontext_getClient w) (\<lambda>client.
     andThen (ask (sessions_create w)) (\<lambda>session.
     andThen (ask (sessions_storeMessage w)) (\<lambda>_.
     ret session)))"

definition storeMessage :: "world \<Rightarrow> string \<Rightarrow> unit io" where
  "storeMessage w sessionId =
     andThen (acontext_getClient w) (\<lambda>client.
     ask (sessions_storeMessage w))"

definition flushAndSummarise :: "world \<Rightarrow> string \<Rightarrow> unit io" where
  "flushAndSummarise w sessionId =
     andThen (acontext_getClient w) (\<lambda>client.
     andThen (ask (sessions_flush w)) (\<lambda>_.
     ask (sessions_getSessionSummary w)))"

text \<open>
  \<open>writeReport\<close> writes the store first and then sends the message, so a failure of
  the Memory Store leaves the store written.
\<close>

definition writeReport :: "world \<Rightarrow> string \<Rightarrow> report \<Rightarrow> report option io" where
  "writeReport w sessionId reportData s =
     (let old = (case reportStore s sessionId of None \<Rightarrow> empty_report | Some r \<Rightarrow> r);
          (now, s1) = ask (Date_now w) s;
          s2 = s1\<lparr>reportStore := (reportStore s1)
                 (sessionId \<mapsto> (spread old reportData)\<lparr>rp_updatedAt := Some now\<rparr>)\<rparr>
      in andThen (acontext_getClient w) (\<lambda>client.
         andThen (ask (sessions_storeMessage w)) (\<lambda>_ s'.
         ret (reportStore s' sessionId) s')) s2)"

definition readReport :: "string \<Rightarrow> sys \<Rightarrow> report option" where
  "readReport sessionId s = reportStore s sessionId"

text \<open>
  \<open>createLearningSpace\<close>: the client is fetched outside the \<open>try\<close>; every failure of
  the two calls is caught, logged as a warning, and answered with \<open>null\<close>.
\<close>

definition createLearningSpace :: "world \<Rightarrow> jsstring \<Rightarrow> string \<Rightarrow> string option io" where
  "createLearningSpace w niche sessionId =
     andThen (acontext_getClient w) (\<lambda>client s.
       case andThen (ask (learningSpaces_create w)) (\<lambda>space.
            andThen (ask (learningSpaces_learn w)) (\<lambda>_.
            ret space)) s of
         (Inr space, s') \<Rightarrow> (Inr (Some space), s')
       | (Inl err, s') \<Rightarrow>
           (Inr None, logger Warn (''Learning space setup failed (non-critical): '' @ err) s'))"

definition taskBlocks :: "task_block list" where
  "taskBlocks =
     [\<lparr>tb_id = extract_pain_points, tb_label = ''Extract Pain Points'', tb_status = T_pending\<rparr>,
      \<lparr>tb_id = rank_and_select, tb_label = ''Rank & Select Top Problem'', tb_status = T_pending\<rparr>,
      \<lparr>tb_id = verify_competitor_gaps, tb_label = ''Verify Competitor Gaps'',
       tb_status = T_pending\<rparr>,
      \<lparr>tb_id = generate_opportunity_brief, tb_label = ''Generate Opportunity Brief'',
       tb_status = T_pending\<rparr>]"

text \<open>\<open>initTaskBlocks\<close> stores a fresh array (a copy of \<open>taskBlocks\<close>).\<close>

definition initTaskBlocks :: "string \<Rightarrow> sys \<Rightarrow> sys" where
  "initTaskBlocks sessionId s =
     s\<lparr>tick := Suc (tick s),
       blocksHeap := (blocksHeap s)(tick s \<mapsto> taskBlocks),
       taskState := (taskState s)(sessionId \<mapsto> tick s)\<rparr>"

text \<open>\<open>blocks.find((t) => t.id === taskId)\<close>, then \<open>task.status = status\<close>.\<close>

fun set_status :: "task_id \<Rightarrow> task_status \<Rightarrow> task_block list \<Rightarrow> task_block list" where
  "set_status taskId st [] = []"
| "set_status taskId st (t # ts) =
     (if tb_id t = taskId then t\<lparr>tb_status := st\<rparr> # ts else t # set_status taskId st ts)"

definition updateTaskBlock :: "string \<Rightarrow> task_id \<Rightarrow> task_status \<Rightarrow> sys \<Rightarrow> sys" where
  "updateTaskBlock sessionId taskId st s =
     (case taskState s sessionId of
        None \<Rightarrow> s
      | Some a \<Rightarrow>
          (case blocksHeap s a of
             None \<Rightarrow> s
           | Some blocks \<Rightarrow> s\<lparr>blocksHeap := (blocksHeap s)(a \<mapsto> set_status taskId st blocks)\<rparr>))"

definition getTaskBlocks :: "string \<Rightarrow> sys \<Rightarrow> blocks_ref" where
  "getTaskBlocks sessionId s =
     (case taskState s sessionId of None \<Rightarrow> NoBlocks | Some a \<Rightarrow> BlocksAt a)"

text \<open>The content of a task-block array, as \<open>JSON.stringify\<close> sees it.\<close>

definition deref :: "sys \<Rightarrow> blocks_ref \<Rightarrow> task_block list" where
  "deref s r =
     (case r of
        NoBlocks \<Rightarrow> []
      | BlocksAt a \<Rightarrow> (case blocksHeap s a of None \<Rightarrow> [] | Some blocks \<Rightarrow> blocks))"

definition serialise :: "sys \<Rightarrow> report \<Rightarrow> report_json" where
  "serialise s r =
     \<lparr>rp_runId = rp_runId r, rp_niche = rp_niche r, rp_sessionId = rp_sessionId r,
      rp_spaceId = rp_spaceId r, rp_status = rp_status r, rp_painPoints = rp_painPoints r,
      rp_topProblem = rp_topProblem r, rp_competitorResults = rp_competitorResults r,
      rp_gapAnalysis = rp_gapAnalysis r, rp_opportunityBrief = rp_opportunityBrief r,
      rp_completedAt = rp_completedAt r,
      rp_taskBlocks = map_option (deref s) (rp_taskBlocks r),
      rp_updatedAt = rp_updatedAt r\<rparr>"

section \<open>utils/helpers.js: parsing\<close>

text \<open>\<open>safeJsonParse\<close> answers \<open>null\<close> when \<open>JSON.parse\<close> throws.\<close>

definition safeJsonParse :: "world \<Rightarrow> string \<Rightarrow> json" where
  "safeJsonParse w str =
     (case JSON_parse w (strip_code_fences w str) of Inl e \<Rightarrow> JNull | Inr v \<Rightarrow> v)"

definition extractJson :: "world \<Rightarrow> string \<Rightarrow> json" where
  "extractJson w str =
     (case match_json w str of None \<Rightarrow> JNull | Some m \<Rightarrow> safeJsonParse w m)"

section \<open>services/llmService.js\<close>

definition llm_getClient :: "world \<Rightarrow> unit io" where
  "llm_getClient w s =
     (if llm_client s then (Inr (), s)
      else if \<not> OPENAI_API_KEY w then (Inl ''OPENAI_API_KEY is not set in .env'', s)
      else (Inr (), s\<lparr>llm_client := True\<rparr>))"

text \<open>\<open>callGPT\<close>: the answer of the call is the content of the first choice, or the
  exception of the request or of reading the response.\<close>

definition callGPT :: "world \<Rightarrow> string io" where
  "callGPT w = andThen (llm_getClient w) (\<lambda>client. ask (chat_completions_create w))"

definition extractPainPoints :: "world \<Rightarrow> doc list \<Rightarrow> jsstring \<Rightarrow> json io" where
  "extractPainPoints w rawPosts niche =
     andThen (callGPT w) (\<lambda>raw s.
       let parsed = safeJsonParse w raw in
       if \<not> truthy (opt_get parsed ''pain_points'') \<or> \<not> isArray (opt_get parsed ''pain_points'')
       then (Inr (nullish_or (extractJson w raw) (JArr [])),
             logger Warn ''Unexpected format - trying extractJson fallback'' s)
       else (Inr (opt_get parsed ''pain_points''), s))"

definition rankAndSelectProblem :: "world \<Rightarrow> json \<Rightarrow> jsstring \<Rightarrow> json io" where
  "rankAndSelectProblem w painPoints niche =
     andThen (callGPT w) (\<lambda>raw s.
       let parsed = safeJsonParse w raw in
       if \<not> truthy (opt_get parsed ''top_problem'')
       then (Inr JNull, logger Warn ''Ranking returned unexpected format'' s)
       else (Inr parsed, s))"

definition inconclusive :: json where
  "inconclusive =
     JObj [(''gap_confirmed'', JBool False), (''confidence'', JStr (js ''low'')),
           (''gap_summary'', JStr (js ''Analysis inconclusive.''))]"

definition analyseCompetitorData :: "world \<Rightarrow> competitor_result list \<Rightarrow> json \<Rightarrow> json io" where
  "analyseCompetitorData w competitorResults topProblem =
     andThen (callGPT w) (\<lambda>raw.
       ret (nullish_or (safeJsonParse w raw) inconclusive))"

text \<open>\<open>painPoints.slice(0, 5)\<close> exists on arrays and strings only.\<close>

fun has_slice :: "json \<Rightarrow> bool" where
  "has_slice (JArr xs) = True"
| "has_slice (JStr s) = True"
| "has_slice v = False"

definition degraded_brief :: "jsstring \<Rightarrow> json \<Rightarrow> json" where
  "degraded_brief niche topProblem =
     JObj [(''headline'', JStr (js ''Market gap identified in '' @ niche)),
           (''problem_statement'',
              nullish_or (opt_get topProblem ''top_problem'') (JStr (js ''See pain points.''))),
           (''target_user'', JStr niche),
           (''mvp_features'', JArr []),
           (''validation_confidence'', JStr (js ''low''))]"

text \<open>The prompt is built, \<open>painPoints.slice(0, 5)\<close> included, before the client is
  fetched.\<close>

definition generateOpportunityBrief ::
  "world \<Rightarrow> jsstring \<Rightarrow> json \<Rightarrow> json \<Rightarrow> competitor_result list \<Rightarrow> json \<Rightarrow> json io" where
  "generateOpportunityBrief w niche topProblem gapAnalysis competitorResults painPoints =
     (if \<not> has_slice painPoints then (\<lambda>s. (Inl TypeError, s))
      else andThen (callGPT w) (\<lambda>raw s.
        let parsed = safeJsonParse w raw in
        if \<not> truthy (opt_get parsed ''headline'')
        then (Inr (degraded_brief niche topProblem),
              logger Warn ''Brief missing headline - returning degraded brief'' s)
        else (Inr parsed, s)))"

text \<open>\<open>cleanAndFilterPosts\<close> catches every failure and answers the posts it was
  given.\<close>

definition cleanAndFilterPosts :: "world \<Rightarrow> doc list \<Rightarrow> jsstring \<Rightarrow> sys \<Rightarrow> doc list \<times> sys" where
  "cleanAndFilterPosts w rawPosts niche s =
     (case callGPT w s of
        (Inl err, s') \<Rightarrow> (rawPosts, logger Warn (''Post cleaning failed (non-critical): '' @ err) s')
      | (Inr raw, s') \<Rightarrow>
          (case opt_get (safeJsonParse w raw) ''keep_urls'' of
             JArr keep_urls \<Rightarrow>
               (let filtered = filter (\<lambda>p. JStr (url p) \<in> set keep_urls) rawPosts
                in (if length filtered \<ge> 5 then filtered else rawPosts, s'))
           | _ \<Rightarrow> (rawPosts, s')))"

section \<open>services/brightDataService.js\<close>

text \<open>
  Strategy 2 of \<open>searchRedditPainPoints\<close>: for each of three queries, pages 0 and 1;
  a failed query is logged and skipped, a first page without Reddit hits ends the
  query, twenty collected results end the strategy.
\<close>

fun google_pages :: "world \<Rightarrow> nat list \<Rightarrow> doc list \<Rightarrow> sys \<Rightarrow> doc list \<times> sys" where
  "google_pages w [] allResults s = (allResults, s)"
| "google_pages w (page # pages) allResults s =
     (case ask (searchWeb w) s of
        (Inl err, s') \<Rightarrow>
          google_pages w pages allResults (logger Warn (''Google query failed: '' @ err) s')
      | (Inr hits, s') \<Rightarrow>
          (let redditHits = filter (\<lambda>r. js_includes (url r) (js ''reddit.com/r/'')) hits;
               allResults' = (if redditHits \<noteq> [] then allResults @ redditHits else allResults)
           in if page = 0 \<and> redditHits = [] then (allResults', s')
              else google_pages w pages allResults' s'))"

fun google_queries :: "world \<Rightarrow> nat \<Rightarrow> doc list \<Rightarrow> sys \<Rightarrow> doc list \<times> sys" where
  "google_queries w 0 allResults s = (allResults, s)"
| "google_queries w (Suc queries) allResults s =
     (case google_pages w [0, 1] allResults s of
        (allResults', s') \<Rightarrow>
          if length allResults' \<ge> 20 then (allResults', s')
          else google_queries w queries allResults' s')"

definition strategy0 :: "world \<Rightarrow> sys \<Rightarrow> doc list \<times> sys" where
  "strategy0 w s =
     (case ask (searchRedditJSON w) s of
        (Inl err, s') \<Rightarrow> ([], logger Warn (''Strategy 0 failed: '' @ err) s')
      | (Inr jsonPosts, s') \<Rightarrow> (jsonPosts, s'))"

definition strategy1 :: "world \<Rightarrow> doc list \<Rightarrow> sys \<Rightarrow> doc list \<times> sys" where
  "strategy1 w allResults s =
     (if length allResults < 10
      then (case ask (searchRedditWithWebData w) s of
              (Inl err, s') \<Rightarrow> (allResults, logger Warn (''Strategy 1 failed: '' @ err) s')
            | (Inr nativePosts, s') \<Rightarrow>
                if nativePosts \<noteq> [] then (allResults @ nativePosts, s')
                else (allResults, logger Warn ''Strategy 1 returned 0 posts'' s'))
      else (allResults, s))"

definition strategy2 :: "world \<Rightarrow> doc list \<Rightarrow> sys \<Rightarrow> doc list \<times> sys" where
  "strategy2 w allResults s =
     (if length allResults < 10 then google_queries w 3 allResults s else (allResults, s))"

definition strategy3 :: "world \<Rightarrow> doc list \<Rightarrow> sys \<Rightarrow> doc list \<times> sys" where
  "strategy3 w allResults s =
     (if length allResults < 10
      then (case ask (searchRedditDirect w) s of
              (Inl err, s') \<Rightarrow>
                (allResults, logger Warn (''Direct Reddit scrape threw: '' @ err) s')
            | (Inr direct, s') \<Rightarrow> (allResults @ direct, s'))
      else (allResults, s))"

text \<open>
  \<open>searchRedditPainPoints\<close>: the four strategies in order, each adding to
  \<open>allResults\<close>, then the filter by URL. No exception leaves it.
\<close>

definition searchRedditPainPoints :: "world \<Rightarrow> jsstring \<Rightarrow> sys \<Rightarrow> doc list \<times> sys" where
  "searchRedditPainPoints w niche s =
     (if niche = [] \<or> trim niche = []
      then ([], logger Warn ''Empty niche provided to searchRedditPainPoints'' s)
      else
        (case strategy0 w s of (all0, s0) \<Rightarrow>
        (case strategy1 w all0 s0 of (all1, s1) \<Rightarrow>
        (case strategy2 w all1 s1 of (all2, s2) \<Rightarrow>
        (case strategy3 w all2 s2 of (all3, s3) \<Rightarrow>
           (unique_filter {} all3,
            if unique_filter {} all3 = [] then logger Warn ''No Reddit URLs found'' s3
            else s3))))))"

text \<open>
  The array \<open>allResults\<close> of \<open>searchRedditPainPoints\<close> as the four strategies leave
  it, before the filter by URL (for a niche that is not blank).
\<close>

definition allResults :: "world \<Rightarrow> sys \<Rightarrow> doc list \<times> sys" where
  "allResults w s =
     (case strategy0 w s of (all0, s0) \<Rightarrow>
     (case strategy1 w all0 s0 of (all1, s1) \<Rightarrow>
     (case strategy2 w all1 s1 of (all2, s2) \<Rightarrow>
      strategy3 w all2 s2)))"

definition scrapeRedditPosts :: "world \<Rightarrow> doc list \<Rightarrow> doc list io" where
  "scrapeRedditPosts w urls = ask (\<lambda>t. scrapeRedditPosts_out w t urls)"

text \<open>\<open>scrapeCompetitorPage\<close> catches the failure of its call.\<close>

definition scrapeCompetitorPage :: "world \<Rightarrow> jsstring \<Rightarrow> sys \<Rightarrow> scraped \<times> sys" where
  "scrapeCompetitorPage w pageUrl = ask (scrapeCompetitorPage_out w)"

definition closeBrightData :: "world \<Rightarrow> unit io" where
  "closeBrightData w = ask (closeBrightData_out w)"

section \<open>services/actionbookService.js\<close>

definition COMPETITOR_TARGETS :: "competitor list" where
  "COMPETITOR_TARGETS =
     [\<lparr>c_name = ''Buffer'', c_pricingUrl = js ''https://buffer.com/pricing'',
       c_featuresUrl = js ''https://buffer.com/features'',
       c_backup = js ''https://buffer.com/all-features''\<rparr>,
      \<lparr>c_name = ''Later'', c_pricingUrl = js ''https://later.com/pricing'',
       c_featuresUrl = js ''https://later.com/features'',
       c_backup = js ''https://later.com/tools''\<rparr>,
      \<lparr>c_name = ''Notion'', c_pricingUrl = js ''https://www.notion.so/pricing'',
       c_featuresUrl = js ''https://www.notion.so/product'',
       c_backup = js ''https://www.notion.so/help''\<rparr>]"

text \<open>
  \<open>checkCompetitorGap\<close> calls \<open>emitEvent\<close> with the type \<open>'browser_action'\<close> only,
  copies \<open>name\<close> and \<open>pricingUrl\<close> from the target into its result, and throws only
  what \<open>browser.close()\<close> throws in its \<open>finally\<close>.
\<close>

definition checkCompetitorGap ::
  "world \<Rightarrow> competitor \<Rightarrow> json \<Rightarrow> (event \<Rightarrow> sys \<Rightarrow> sys) \<Rightarrow> competitor_result io" where
  "checkCompetitorGap w competitor targetKeyword emitEvent s =
     (case ask (checkCompetitorGap_out w) s of
        (out, s') \<Rightarrow>
          (case co_result out of
             Inl err \<Rightarrow> Inl err
           | Inr r \<Rightarrow> Inr (r\<lparr>cr_name := c_name competitor,
                              cr_pricingUrl := c_pricingUrl competitor\<rparr>),
           fold (\<lambda>action. emitEvent (BrowserAction (c_name competitor) action))
             (co_actions out) s'))"

fun verifyAllCompetitors_loop ::
  "world \<Rightarrow> competitor list \<Rightarrow> json \<Rightarrow> (event \<Rightarrow> sys \<Rightarrow> sys) \<Rightarrow> competitor_result list
   \<Rightarrow> competitor_result list io" where
  "verifyAllCompetitors_loop w [] targetKeyword emitEvent results s = (Inr results, s)"
| "verifyAllCompetitors_loop w (competitor # rest) targetKeyword emitEvent results s =
     (case checkCompetitorGap w competitor targetKeyword emitEvent s of
        (Inl err, s') \<Rightarrow> (Inl err, s')
      | (Inr result, s') \<Rightarrow>
          verifyAllCompetitors_loop w rest targetKeyword emitEvent (results @ [result]) s')"

definition verifyAllCompetitors ::
  "world \<Rightarrow> json \<Rightarrow> (event \<Rightarrow> sys \<Rightarrow> sys) \<Rightarrow> competitor_result list io" where
  "verifyAllCompetitors w targetKeyword emitEvent =
     verifyAllCompetitors_loop w COMPETITOR_TARGETS targetKeyword emitEvent []"

section \<open>services/agentOrchestrator.js\<close>

subsection \<open>The state of the graph and its reducers\<close>

text \<open>
  \<open>AgentState\<close>. The closure \<open>emit\<close> is given by the emitter it sends to (the graph is
  only invoked with \<open>emit\<close> supplied).
\<close>

record agent_state =
  runId :: string
  niche :: jsstring
  sessionId :: string
  spaceId :: "string option"
  searchResults :: "doc list"
  rawPosts :: "doc list"
  painPoints :: json
  topProblem :: json
  competitorResults :: "competitor_result list"
  gapAnalysis :: json
  opportunityBrief :: json
  emit_fn :: nat
  errors :: "(phase \<times> error) list"

text \<open>A node's partial update: a key is \<open>None\<close> when the returned object lacks it.\<close>

record update =
  u_searchResults :: "doc list option"
  u_rawPosts :: "doc list option"
  u_painPoints :: "json option"
  u_topProblem :: "json option"
  u_competitorResults :: "competitor_result list option"
  u_gapAnalysis :: "json option"
  u_opportunityBrief :: "json option"
  u_errors :: "(phase \<times> error) list option"

definition no_update :: update where
  "no_update =
     \<lparr>u_searchResults = None, u_rawPosts = None, u_painPoints = None, u_topProblem = None,
      u_competitorResults = None, u_gapAnalysis = None, u_opportunityBrief = None,
      u_errors = None\<rparr>"

text \<open>The reducers: \<open>(_, v) => v\<close> for every key but \<open>errors\<close>, whose reducer is
  \<open>(acc, v) => [...acc, ...v]\<close>.\<close>

definition replace_reducer :: "'a \<Rightarrow> 'a \<Rightarrow> 'a" where
  "replace_reducer old v = v"

definition errors_reducer :: "'a list \<Rightarrow> 'a list \<Rightarrow> 'a list" where
  "errors_reducer acc v = acc @ v"

definition reduce :: "('a \<Rightarrow> 'a \<Rightarrow> 'a) \<Rightarrow> 'a \<Rightarrow> 'a option \<Rightarrow> 'a" where
  "reduce reducer old new = (case new of None \<Rightarrow> old | Some v \<Rightarrow> reducer old v)"

definition merge :: "agent_state \<Rightarrow> update \<Rightarrow> agent_state" where
  "merge st u =
     st\<lparr>searchResults := reduce replace_reducer (searchResults st) (u_searchResults u),
        rawPosts := reduce replace_reducer (rawPosts st) (u_rawPosts u),
        painPoints := reduce replace_reducer (painPoints st) (u_painPoints u),
        topProblem := reduce replace_reducer (topProblem st) (u_topProblem u),
        competitorResults :=
          reduce replace_reducer (competitorResults st) (u_competitorResults u),
        gapAnalysis := reduce replace_reducer (gapAnalysis st) (u_gapAnalysis u),
        opportunityBrief := reduce replace_reducer (opportunityBrief st) (u_opportunityBrief u),
        errors := reduce errors_reducer (errors st) (u_errors u)\<rparr>"

subsection \<open>scoutNode\<close>

record scout_locals =
  sl_searchResults :: "doc list"
  sl_rawPosts :: "doc list"

definition scout_try :: "world \<Rightarrow> agent_state \<Rightarrow> scout_locals step list" where
  "scout_try w st =
     [await (\<lambda>l. total (searchRedditPainPoints w (niche st)))
        (\<lambda>v l. l\<lparr>sl_searchResults := v\<rparr>),
      stmt (\<lambda>l. emit (emit_fn st) (SearchComplete (length (sl_searchResults l)))),
      await (\<lambda>l. scrapeRedditPosts w (sl_searchResults l))
        (\<lambda>v l. l\<lparr>sl_rawPosts := v\<rparr>),
      stmt (\<lambda>l. emit (emit_fn st) (ScrapeComplete (length (sl_rawPosts l)))),
      await (\<lambda>l. total (cleanAndFilterPosts w (sl_rawPosts l) (niche st)))
        (\<lambda>filtered l. l\<lparr>sl_rawPosts :=
            (if length filtered \<ge> 5 then filtered else sl_rawPosts l)\<rparr>),
      await (\<lambda>l. storeMessage w (sessionId st)) (\<lambda>v l. l)]"

definition scoutNode :: "world \<Rightarrow> agent_state \<Rightarrow> sys \<Rightarrow> update \<times> sys" where
  "scoutNode w st s =
     (case run_steps (scout_try w st) \<lparr>sl_searchResults = [], sl_rawPosts = []\<rparr>
             (emit (emit_fn st) (PhaseStart Scout) s) of
        ((None, l), s') \<Rightarrow>
          (no_update\<lparr>u_searchResults := Some (sl_searchResults l),
                     u_rawPosts := Some (sl_rawPosts l), u_errors := Some []\<rparr>,
           emit (emit_fn st) (PhaseComplete Scout) s')
      | ((Some err, l), s') \<Rightarrow>
          (no_update\<lparr>u_searchResults := Some (sl_searchResults l),
                     u_rawPosts := Some
                       (if sl_rawPosts l = [] \<and> sl_searchResults l \<noteq> []
                        then map (\<lambda>r. r\<lparr>content := Some (snippet r)\<rparr>) (sl_searchResults l)
                        else sl_rawPosts l),
                     u_errors := Some [(Scout, err)]\<rparr>,
           emit (emit_fn st) (PhaseComplete Scout)
             (emit (emit_fn st) (PhaseWarning Scout err)
               (logger Err (''Scout node error: '' @ err) s'))))"

subsection \<open>brainNode\<close>

record brain_locals =
  bl_painPoints :: json
  bl_topProblem :: json

text \<open>\<open>p.problem\<close> throws on \<open>null\<close>.\<close>

fun problems :: "json list \<Rightarrow> error + json list" where
  "problems [] = Inr []"
| "problems (p # ps) =
     (if nullish p then Inl TypeError
      else (case problems ps of Inl e \<Rightarrow> Inl e | Inr vs \<Rightarrow> Inr (opt_get p ''problem'' # vs)))"

text \<open>\<open>painPoints.slice(0, 3).map((p) => p.problem)\<close> needs an array.\<close>

definition preview :: "json \<Rightarrow> error + json list" where
  "preview v = (case v of JArr xs \<Rightarrow> problems (take 3 xs) | _ \<Rightarrow> Inl TypeError)"

fun js_length :: "json \<Rightarrow> json" where
  "js_length (JArr xs) = JNum (int (length xs))"
| "js_length (JStr s) = JNum (int (length s))"
| "js_length v = opt_get v ''length''"

definition brain_try :: "world \<Rightarrow> agent_state \<Rightarrow> brain_locals step list" where
  "brain_try w st =
     [stmt (\<lambda>l s. emit (emit_fn st) (TaskUpdate extract_pain_points T_running)
               (updateTaskBlock (sessionId st) extract_pain_points T_running s)),
      await (\<lambda>l. extractPainPoints w (rawPosts st) (niche st))
        (\<lambda>v l. l\<lparr>bl_painPoints := v\<rparr>),
      stmt (\<lambda>l s. emit (emit_fn st) (TaskUpdate extract_pain_points T_complete)
               (updateTaskBlock (sessionId st) extract_pain_points T_complete s)),
      await (\<lambda>l s. case preview (bl_painPoints l) of
                     Inl e \<Rightarrow> (Inl e, s)
                   | Inr pv \<Rightarrow>
                       (Inr (), emit (emit_fn st)
                                  (PainPointsExtracted (js_length (bl_painPoints l)) pv) s))
        (\<lambda>v l. l),
      await (\<lambda>l. storeMessage w (sessionId st)) (\<lambda>v l. l),
      await (\<lambda>l. writeReport w (sessionId st)
                    (empty_report\<lparr>rp_painPoints := Some (bl_painPoints l)\<rparr>))
        (\<lambda>v l. l),
      stmt (\<lambda>l s. emit (emit_fn st) (TaskUpdate rank_and_select T_running)
               (updateTaskBlock (sessionId st) rank_and_select T_running s)),
      await (\<lambda>l. rankAndSelectProblem w (bl_painPoints l) (niche st))
        (\<lambda>v l. l\<lparr>bl_topProblem := v\<rparr>),
      stmt (\<lambda>l s. emit (emit_fn st) (TopProblemSelected (bl_topProblem l))
               (emit (emit_fn st) (TaskUpdate rank_and_select T_complete)
                 (updateTaskBlock (sessionId st) rank_and_select T_complete s))),
      await (\<lambda>l. storeMessage w (sessionId st)) (\<lambda>v l. l),
      await (\<lambda>l. writeReport w (sessionId st)
                    (empty_report\<lparr>rp_topProblem := Some (bl_topProblem l)\<rparr>))
        (\<lambda>v l. l)]"

definition brainNode :: "world \<Rightarrow> agent_state \<Rightarrow> sys \<Rightarrow> update \<times> sys" where
  "brainNode w st s =
     (case run_steps (brain_try w st) \<lparr>bl_painPoints = JArr [], bl_topProblem = JNull\<rparr>
             (emit (emit_fn st) (PhaseStart Brain) s) of
        ((None, l), s') \<Rightarrow>
          (no_update\<lparr>u_painPoints := Some (bl_painPoints l),
                     u_topProblem := Some (bl_topProblem l), u_errors := Some []\<rparr>,
           emit (emit_fn st) (PhaseComplete Brain) s')
      | ((Some err, l), s') \<Rightarrow>
          (no_update\<lparr>u_painPoints := Some (bl_painPoints l),
                     u_topProblem := Some (bl_topProblem l),
                     u_errors := Some [(Brain, err)]\<rparr>,
           emit (emit_fn st) (PhaseComplete Brain)
             (emit (emit_fn st) (PhaseWarning Brain err)
               (updateTaskBlock (sessionId st) rank_and_select T_error
                 (updateTaskBlock (sessionId st) extract_pain_points T_error
                   (logger Err (''Brain node error: '' @ err) s'))))))"

subsection \<open>validateNode\<close>

record validate_locals =
  vl_competitorResults :: "competitor_result list"
  vl_gapAnalysis :: json

text \<open>
  The fallback loop over the results: a result with neither \<open>success\<close> nor \<open>notes\<close>
  is scraped and, on success, gets \<open>scrapedContent\<close> (the result objects are mutated
  in place).
\<close>

fun fallback_scrape ::
  "world \<Rightarrow> nat \<Rightarrow> competitor_result list \<Rightarrow> sys \<Rightarrow> competitor_result list \<times> sys" where
  "fallback_scrape w emitter [] s = ([], s)"
| "fallback_scrape w emitter (result # rest) s =
     (if \<not> cr_success result \<and> cr_notes result = []
      then (case scrapeCompetitorPage w (cr_pricingUrl result)
                   (emit emitter (BrowserAction (cr_name result) ''fallback'') s) of
              (page, s') \<Rightarrow>
                (case fallback_scrape w emitter rest s' of
                   (rest', s'') \<Rightarrow>
                     ((if sc_success page
                       then result\<lparr>cr_scrapedContent := Some (take 1000 (sc_content page))\<rparr>
                       else result) # rest', s'')))
      else (case fallback_scrape w emitter rest s of
              (rest', s') \<Rightarrow> (result # rest', s')))"

text \<open>\<open>gapAnalysis?.gap_summary?.slice(0, 200)\<close> throws when the summary is neither
  absent, a string nor an array.\<close>

definition summary_slice_ok :: "json \<Rightarrow> bool" where
  "summary_slice_ok g =
     (nullish (opt_get g ''gap_summary'') \<or> has_slice (opt_get g ''gap_summary''))"

definition validation_failed :: json where
  "validation_failed =
     JObj [(''gap_confirmed'', JBool False), (''confidence'', JStr (js ''low'')),
           (''gap_summary'', JStr (js ''Automated validation failed.''))]"

definition validate_try :: "world \<Rightarrow> agent_state \<Rightarrow> validate_locals step list" where
  "validate_try w st =
     [await (\<lambda>l. verifyAllCompetitors w
                    (nullish_or (opt_get (topProblem st) ''gap_keyword'') (JStr []))
                    (emit (emit_fn st)))
        (\<lambda>v l. l\<lparr>vl_competitorResults := v\<rparr>),
      await (\<lambda>l. total (fallback_scrape w (emit_fn st) (vl_competitorResults l)))
        (\<lambda>v l. l\<lparr>vl_competitorResults := v\<rparr>),
      await (\<lambda>l. analyseCompetitorData w (vl_competitorResults l) (topProblem st))
        (\<lambda>v l. l\<lparr>vl_gapAnalysis := v\<rparr>),
      stmt (\<lambda>l s. emit (emit_fn st) (GapAnalysisComplete (vl_gapAnalysis l))
               (emit (emit_fn st) (TaskUpdate verify_competitor_gaps T_complete)
                 (updateTaskBlock (sessionId st) verify_competitor_gaps T_complete s))),
      await (\<lambda>l. if summary_slice_ok (vl_gapAnalysis l) then storeMessage w (sessionId st)
                  else (\<lambda>s. (Inl TypeError, s)))
        (\<lambda>v l. l),
      await (\<lambda>l. writeReport w (sessionId st)
                    (empty_report\<lparr>rp_competitorResults :=
                         Some (map (\<lambda>c. c\<lparr>cr_screenshot := None\<rparr>) (vl_competitorResults l)),
                       rp_gapAnalysis := Some (vl_gapAnalysis l)\<rparr>))
        (\<lambda>v l. l)]"

definition validateNode :: "world \<Rightarrow> agent_state \<Rightarrow> sys \<Rightarrow> update \<times> sys" where
  "validateNode w st s =
     (case run_steps (validate_try w st) \<lparr>vl_competitorResults = [], vl_gapAnalysis = JNull\<rparr>
             (emit (emit_fn st) (TaskUpdate verify_competitor_gaps T_running)
               (updateTaskBlock (sessionId st) verify_competitor_gaps T_running
                 (emit (emit_fn st) (PhaseStart Validate) s))) of
        ((None, l), s') \<Rightarrow>
          (no_update\<lparr>u_competitorResults := Some (vl_competitorResults l),
                     u_gapAnalysis := Some (vl_gapAnalysis l), u_errors := Some []\<rparr>,
           emit (emit_fn st) (PhaseComplete Validate) s')
      | ((Some err, l), s') \<Rightarrow>
          (no_update\<lparr>u_competitorResults := Some (vl_competitorResults l),
                     u_gapAnalysis := Some validation_failed,
                     u_errors := Some [(Validate, err)]\<rparr>,
           emit (emit_fn st) (PhaseComplete Validate)
             (emit (emit_fn st) (PhaseWarning Validate err)
               (updateTaskBlock (sessionId st) verify_competitor_gaps T_error
                 (logger Err (''Validate node error: '' @ err) s')))))"

subsection \<open>briefNode\<close>

text \<open>
  The only local of the block is \<open>opportunityBrief\<close>. The brief that
  \<open>generateOpportunityBrief\<close> returns is an object with a \<open>headline\<close>, so reading
  \<open>opportunityBrief.headline\<close> does not throw. The function ends with
  \<open>return { opportunityBrief, errors }\<close>.
\<close>

definition brief_try :: "world \<Rightarrow> agent_state \<Rightarrow> json step list" where
  "brief_try w st =
     [await (\<lambda>l. generateOpportunityBrief w (niche st) (topProblem st) (gapAnalysis st)
                    (competitorResults st) (painPoints st))
        (\<lambda>v l. v),
      stmt (\<lambda>l s. emit (emit_fn st) (TaskUpdate generate_opportunity_brief T_complete)
               (updateTaskBlock (sessionId st) generate_opportunity_brief T_complete s)),
      await (\<lambda>l. flushAndSummarise w (sessionId st)) (\<lambda>v l. l),
      await (\<lambda>l s. case ask (Date_now w) s of
                     (now, s') \<Rightarrow>
                       writeReport w (sessionId st)
                         (empty_report\<lparr>rp_opportunityBrief := Some l,
                            rp_status := Some S_complete,
                            rp_completedAt := Some now,
                            rp_taskBlocks := Some (getTaskBlocks (sessionId st) s')\<rparr>) s')
        (\<lambda>v l. l),
      await (\<lambda>l. storeMessage w (sessionId st)) (\<lambda>v l. l),
      stmt (\<lambda>l s. emit (emit_fn st)
               (ReportReady (map_option (serialise s) (readReport (sessionId st) s))
                  (map (\<lambda>c. (cr_name c, cr_screenshot c)) (competitorResults st))) s)]"

definition briefNode :: "world \<Rightarrow> agent_state \<Rightarrow> sys \<Rightarrow> update \<times> sys" where
  "briefNode w st s =
     (case run_steps (brief_try w st) JNull
             (emit (emit_fn st) (TaskUpdate generate_opportunity_brief T_running)
               (updateTaskBlock (sessionId st) generate_opportunity_brief T_running
                 (emit (emit_fn st) (PhaseStart Brief) s))) of
        ((None, l), s') \<Rightarrow>
          (no_update\<lparr>u_opportunityBrief := Some l, u_errors := Some []\<rparr>, s')
      | ((Some err, l), s') \<Rightarrow>
          (no_update\<lparr>u_opportunityBrief := Some l, u_errors := Some [(Brief, err)]\<rparr>,
           emit (emit_fn st) (PhaseWarning Brief err)
             (updateTaskBlock (sessionId st) generate_opportunity_brief T_error
               (logger Err (''Brief node error: '' @ err) s'))))"

subsection \<open>The compiled graph\<close>

text \<open>
  \<open>START \<rightarrow> scout \<rightarrow> brain \<rightarrow> validate \<rightarrow> brief \<rightarrow> END\<close>. The library that runs the graph
  is not part of the program; as the program's comments describe it, the nodes run in
  the order of the edges and each node's partial update is merged into the state by the
  reducers. \<open>run_nodes\<close> returns the state before the first node and after each node.
\<close>

type_synonym node = "agent_state \<Rightarrow> sys \<Rightarrow> update \<times> sys"

fun run_nodes :: "node list \<Rightarrow> agent_state \<Rightarrow> sys \<Rightarrow> agent_state list \<times> sys" where
  "run_nodes [] st s = ([st], s)"
| "run_nodes (nd # rest) st s =
     (case nd st s of
        (u, s') \<Rightarrow>
          (case run_nodes rest (merge st u) s' of
             (sts, s'') \<Rightarrow> (st # sts, s'')))"

definition graph :: "world \<Rightarrow> node list" where
  "graph w = [scoutNode w, brainNode w, validateNode w, briefNode w]"

text \<open>The state the graph starts from: the defaults of \<open>AgentState\<close> with the keys of
  the input of \<open>graph.invoke\<close>.\<close>

definition initial_state ::
  "string \<Rightarrow> jsstring \<Rightarrow> string \<Rightarrow> string option \<Rightarrow> nat \<Rightarrow> agent_state" where
  "initial_state rid n sid space emitter =
     \<lparr>runId = rid, niche = n, sessionId = sid, spaceId = space,
      searchResults = [], rawPosts = [], painPoints = JArr [], topProblem = JNull,
      competitorResults = [], gapAnalysis = JNull, opportunityBrief = JNull,
      emit_fn = emitter, errors = []\<rparr>"

definition graph_invoke :: "world \<Rightarrow> agent_state \<Rightarrow> sys \<Rightarrow> agent_state \<times> sys" where
  "graph_invoke w st s = (case run_nodes (graph w) st s of (sts, s') \<Rightarrow> (last sts, s'))"

subsection \<open>The registry and the public API\<close>

definition no_record :: run_record where
  "no_record =
     \<lparr>run_emitter = None, run_status = None, run_niche = None, run_startedAt = None,
      run_sessionId = None\<rparr>"

definition activeRuns_set :: "string \<Rightarrow> run_record \<Rightarrow> sys \<Rightarrow> sys" where
  "activeRuns_set rid r s =
     s\<lparr>activeRuns := (activeRuns s)(rid \<mapsto> r),
       trace := trace s @ [RegistrySet rid (run_status r)]\<rparr>"

definition getActiveRun :: "string \<Rightarrow> sys \<Rightarrow> run_record option" where
  "getActiveRun rid s = activeRuns s rid"

text \<open>\<open>{ ...activeRuns.get(runId) }\<close>\<close>

definition spread_run :: "string \<Rightarrow> sys \<Rightarrow> run_record" where
  "spread_run rid s = (case activeRuns s rid of None \<Rightarrow> no_record | Some r \<Rightarrow> r)"

text \<open>
  The bootstrap of \<open>runGraph\<close>: session, learning space, task blocks, the
  \<open>session_created\<close> event and the first write of the report. It answers the session
  id and \<open>space?.id ?? null\<close>.
\<close>

definition runGraph_bootstrap ::
  "world \<Rightarrow> string \<Rightarrow> jsstring \<Rightarrow> nat \<Rightarrow> (string \<times> string option) io" where
  "runGraph_bootstrap w rid n emitter =
     andThen (createSession w n) (\<lambda>session.
     andThen (createLearningSpace w n session) (\<lambda>space.
     andThen (lift (\<lambda>s. let s' = initTaskBlocks session s in
                emit emitter
                  (SessionCreated session space (deref s' (getTaskBlocks session s'))) s')) (\<lambda>_.
     andThen (writeReport w session
                (empty_report\<lparr>rp_runId := Some rid, rp_niche := Some n,
                   rp_sessionId := Some session, rp_spaceId := Some space,
                   rp_status := Some S_running\<rparr>)) (\<lambda>_.
     ret (session, space)))))"

text \<open>
  After \<open>graph.invoke\<close>: the status is written to the registry, then \<open>done\<close> is
  emitted with \<open>Date.now() - new Date(startedAt).getTime()\<close>.
\<close>

definition final_status :: "agent_state \<Rightarrow> run_status" where
  "final_status finalState =
     (if length (errors finalState) \<noteq> 0 then S_complete_with_warnings else S_complete)"

definition runGraph_finish ::
  "world \<Rightarrow> string \<Rightarrow> nat \<Rightarrow> string \<Rightarrow> agent_state \<Rightarrow> sys \<Rightarrow> sys" where
  "runGraph_finish w rid emitter session finalState s =
     (case ask (Date_now w)
             (activeRuns_set rid
                ((spread_run rid s)\<lparr>run_status := Some (final_status finalState),
                                    run_sessionId := Some session\<rparr>) s) of
        (now, s') \<Rightarrow>
          emit emitter
            (Done (Some session) (Some (length (errors finalState)))
               (case run_startedAt (spread_run rid s') of
                  None \<Rightarrow> None
                | Some t0 \<Rightarrow> Some (int now - int t0))) s')"

definition runGraph_catch :: "string \<Rightarrow> nat \<Rightarrow> error \<Rightarrow> sys \<Rightarrow> sys" where
  "runGraph_catch rid emitter err s =
     (let s' = emit emitter (Done None None None)
                 (emit emitter (ErrorEvent err)
                   (logger Err (''Graph fatal error: '' @ err) s))
      in activeRuns_set rid ((spread_run rid s')\<lparr>run_status := Some S_error\<rparr>) s')"

text \<open>
  \<open>runGraph\<close>: \<open>try\<close> (run_start, bootstrap, graph, finish), \<open>catch\<close>, and
  \<open>finally\<close> with \<open>closeBrightData().catch(() => {})\<close>, whose failure is dropped.
\<close>

definition runGraph :: "world \<Rightarrow> string \<Rightarrow> jsstring \<Rightarrow> nat \<Rightarrow> unit io" where
  "runGraph w rid n emitter s =
     (case andThen (runGraph_bootstrap w rid n emitter) (\<lambda>(session, space).
             andThen (total (graph_invoke w (initial_state rid n session space emitter)))
               (\<lambda>finalState.
             lift (runGraph_finish w rid emitter session finalState)))
            (emit emitter (RunStart n) s) of
        (r, s') \<Rightarrow>
          (case closeBrightData w
                  (case r of Inr v \<Rightarrow> s' | Inl err \<Rightarrow> runGraph_catch rid emitter err s') of
             (closed, s'') \<Rightarrow> (Inr (), s'')))"

text \<open>
  \<open>startRun\<close> registers the run and starts \<open>runGraph\<close> without waiting for it: the
  call is queued in \<open>pending\<close>. \<open>run_task\<close> is that call with the handler
  \<open>startRun\<close> attaches to it; \<open>event_loop\<close> runs the queued calls one after the
  other (runs are not interleaved in this model).
\<close>

definition new_EventEmitter :: "sys \<Rightarrow> nat \<times> sys" where
  "new_EventEmitter s = (tick s, s\<lparr>tick := Suc (tick s)\<rparr>)"

definition startRun :: "world \<Rightarrow> jsstring \<Rightarrow> string io" where
  "startRun w n s =
     (case ask (uuidv4 w) s of
        (rid, s1) \<Rightarrow>
          (case new_EventEmitter s1 of
             (emitter, s2) \<Rightarrow>
               (case ask (Date_now w) s2 of
                  (now, s3) \<Rightarrow>
                    (let s4 = activeRuns_set rid
                                \<lparr>run_emitter = Some emitter, run_status = Some S_running,
                                 run_niche = Some n, run_startedAt = Some now,
                                 run_sessionId = None\<rparr> s3
                     in (Inr rid,
                         s4\<lparr>pending := pending s4 @
                              [\<lparr>t_runId = rid, t_niche = n, t_emitter = emitter\<rparr>]\<rparr>)))))"

definition run_task :: "world \<Rightarrow> task \<Rightarrow> sys \<Rightarrow> sys" where
  "run_task w t s =
     (case runGraph w (t_runId t) (t_niche t) (t_emitter t) s of
        (Inr v, s') \<Rightarrow> s'
      | (Inl err, s') \<Rightarrow>
          emit (t_emitter t) (Done None None None)
            (emit (t_emitter t) (ErrorEvent err)
              (logger Err (''Unhandled graph error: '' @ err) s')))"

definition event_loop :: "world \<Rightarrow> sys \<Rightarrow> sys" where
  "event_loop w s = foldl (\<lambda>s' t. run_task w t s') (s\<lparr>pending := []\<rparr>) (pending s)"

section \<open>routes/agent.js\<close>




text \<open>\<open>GET /report/:runId\<close>: the stored report of the run's session, or 404.\<close>

definition get_report :: "string \<Rightarrow> sys \<Rightarrow> nat \<times> report_json option" where
  "get_report rid s =
     (case getActiveRun rid s of
        None \<Rightarrow> (404, None)
      | Some run \<Rightarrow>
          (case (case run_sessionId run of None \<Rightarrow> None | Some sid \<Rightarrow> readReport sid s) of
             None \<Rightarrow> (404, None)
           | Some r \<Rightarrow> (200, Some (serialise s r))))"

section \<open>Notions for the properties\<close>

text \<open>\<open>only w P s0 s\<close>: the history of \<open>s\<close> is the history of \<open>s0\<close> followed by
  entries that all satisfy \<open>P\<close>; the registry and the queue of started runs are
  those of \<open>s0\<close>; if the world \<open>w\<close> has no Reasoning Provider credential, the
  Reasoning Provider client is as in \<open>s0\<close>; and the clock of answers has not gone
  back.\<close>

definition only :: "world \<Rightarrow> (trace_entry \<Rightarrow> bool) \<Rightarrow> sys \<Rightarrow> sys \<Rightarrow> bool" where
  "only w P s0 s =
     ((\<exists>ys. trace s = trace s0 @ ys \<and> list_all P ys)
      \<and> activeRuns s = activeRuns s0 \<and> pending s = pending s0
      \<and> (\<not> OPENAI_API_KEY w \<longrightarrow> llm_client s = llm_client s0)
      \<and> tick s0 \<le> tick s)"

definition logs_ok :: "(trace_entry \<Rightarrow> bool) \<Rightarrow> bool" where
  "logs_ok P = (\<forall>l m. P (Log l m))"

text \<open>The events a node emits between its \<open>phase_start\<close> and the end of its work,
  and the history entries a node adds there: such events on its own emitter, and log
  lines.\<close>

fun inner_event :: "event \<Rightarrow> bool" where
  "inner_event (PhaseWarning p e) = True"
| "inner_event (SearchComplete n) = True"
| "inner_event (ScrapeComplete n) = True"
| "inner_event (TaskUpdate t st) = True"
| "inner_event (PainPointsExtracted c pv) = True"
| "inner_event (TopProblemSelected tp) = True"
| "inner_event (BrowserAction c a) = True"
| "inner_event (GapAnalysisComplete g) = True"
| "inner_event (ReportReady r shots) = True"
| "inner_event ev = False"

fun inner_entry :: "nat \<Rightarrow> trace_entry \<Rightarrow> bool" where
  "inner_entry emitter (Emit e ev) = (e = emitter \<and> inner_event ev)"
| "inner_entry emitter (Log l m) = True"
| "inner_entry emitter (RegistrySet rid st) = False"

text \<open>What a phase adds to the history: \<open>phase_start\<close>, inner entries, and at the
  end \<open>phase_complete\<close> or nothing.\<close>

definition phase_block :: "nat \<Rightarrow> phase \<Rightarrow> bool \<Rightarrow> trace_entry list \<Rightarrow> bool" where
  "phase_block emitter p completes tr =
     (\<exists>mid. tr = Emit emitter (PhaseStart p) # mid @
                   (if completes then [Emit emitter (PhaseComplete p)] else [])
            \<and> list_all (inner_entry emitter) mid)"

text \<open>What the bootstrap of \<open>runGraph\<close> adds to the history.\<close>

fun boot_entry :: "nat \<Rightarrow> trace_entry \<Rightarrow> bool" where
  "boot_entry emitter (Emit e (SessionCreated sid space blocks)) = (e = emitter)"
| "boot_entry emitter (Log l m) = True"
| "boot_entry emitter x = False"

fun is_done :: "event \<Rightarrow> bool" where
  "is_done (Done sid n d) = True"
| "is_done ev = False"

fun is_error :: "event \<Rightarrow> bool" where
  "is_error (ErrorEvent e) = True"
| "is_error ev = False"

fun phase_starts :: "event list \<Rightarrow> phase list" where
  "phase_starts [] = []"
| "phase_starts (PhaseStart p # evs) = p # phase_starts evs"
| "phase_starts (ev # evs) = phase_starts evs"

fun phase_completes :: "event list \<Rightarrow> phase list" where
  "phase_completes [] = []"
| "phase_completes (PhaseComplete p # evs) = p # phase_completes evs"
| "phase_completes (ev # evs) = phase_completes evs"

text \<open>The \<open>report_ready\<close> events, and the entries a node adds before it announces the
  report: inner entries other than \<open>report_ready\<close>.\<close>

fun is_report_ready :: "event \<Rightarrow> bool" where
  "is_report_ready (ReportReady r shots) = True"
| "is_report_ready ev = False"

fun quiet_entry :: "nat \<Rightarrow> trace_entry \<Rightarrow> bool" where
  "quiet_entry emitter (Emit e ev) = (e = emitter \<and> inner_event ev \<and> \<not> is_report_ready ev)"
| "quiet_entry emitter (Log l m) = True"
| "quiet_entry emitter (RegistrySet rid st) = False"

text \<open>What a run adds to the history when its bootstrap fails with \<open>e\<close>, and when
  it does not.\<close>

definition fatal_shape :: "nat \<Rightarrow> string \<Rightarrow> jsstring \<Rightarrow> error \<Rightarrow> trace_entry list \<Rightarrow> bool" where
  "fatal_shape em rid n e tr =
     (\<exists>pre. list_all (boot_entry em) pre
        \<and> tr = Emit em (RunStart n) # pre @
                 [Log Err (''Graph fatal error: '' @ e), Emit em (ErrorEvent e),
                  Emit em (Done None None None), RegistrySet rid (Some S_error)])"

definition ok_shape ::
  "nat \<Rightarrow> string \<Rightarrow> jsstring \<Rightarrow> string \<Rightarrow> agent_state \<Rightarrow> int option \<Rightarrow> trace_entry list \<Rightarrow> bool" where
  "ok_shape em rid n session finalState d tr =
     (\<exists>pre t1 t2 t3 t4. list_all (boot_entry em) pre
        \<and> phase_block em Scout True t1 \<and> phase_block em Brain True t2
        \<and> phase_block em Validate True t3 \<and> phase_block em Brief False t4
        \<and> tr = Emit em (RunStart n) # pre @ t1 @ t2 @ t3 @ t4 @
                 [RegistrySet rid (Some (final_status finalState)),
                  Emit em (Done (Some session) (Some (length (errors finalState))) d)])"

text \<open>
  Concrete environments. In \<open>calm_world\<close> both credentials are present and every
  call succeeds with empty data (the Reasoning Provider answers \<open>{}\<close>); the others
  differ from it as their names say.
\<close>

definition calm_world :: world where
  "calm_world =
     \<lparr>OPENAI_API_KEY = True, ACONTEXT_API_KEY = True,
      uuidv4 = (\<lambda>t. ''run-'' @ replicate t CHR ''x''),
      Date_now = (\<lambda>t. 1000 + t),
      JSON_parse = (\<lambda>str. Inr (JObj [])),
      strip_code_fences = (\<lambda>str. str),
      match_json = (\<lambda>str. None),
      sessions_create = (\<lambda>t. Inr ''session-1''),
      sessions_storeMessage = (\<lambda>t. Inr ()),
      sessions_flush = (\<lambda>t. Inr ()),
      sessions_getSessionSummary = (\<lambda>t. Inr ()),
      learningSpaces_create = (\<lambda>t. Inr ''space-1''),
      learningSpaces_learn = (\<lambda>t. Inr ()),
      chat_completions_create = (\<lambda>t. Inr ''{}''),
      searchRedditJSON = (\<lambda>t. Inr []),
      searchRedditWithWebData = (\<lambda>t. Inr []),
      searchWeb = (\<lambda>t. Inr []),
      searchRedditDirect = (\<lambda>t. Inr []),
      scrapeRedditPosts_out = (\<lambda>t urls. Inr []),
      scrapeCompetitorPage_out = (\<lambda>t. \<lparr>sc_content = [], sc_success = True\<rparr>),
      closeBrightData_out = (\<lambda>t. Inr ()),
      checkCompetitorGap_out = (\<lambda>t.
        \<lparr>co_actions = [''starting''],
         co_result = Inr \<lparr>cr_name = [], cr_pricingUrl = [], cr_screenshot = None,
                          cr_success = True,
                          cr_notes = ''No major gaps detected on this competitor.'',
                          cr_scrapedContent = None\<rparr>\<rparr>)\<rparr>"

definition no_openai_world :: world where
  "no_openai_world = calm_world\<lparr>OPENAI_API_KEY := False\<rparr>"

definition no_session_world :: world where
  "no_session_world = calm_world\<lparr>sessions_create := (\<lambda>t. Inl ''sessions.create failed'')\<rparr>"

definition no_space_world :: world where
  "no_space_world =
     calm_world\<lparr>learningSpaces_create := (\<lambda>t. Inl ''learningSpaces.create failed'')\<rparr>"

text \<open>Two search results with one URL and different titles.\<close>

definition post_a :: doc where
  "post_a = \<lparr>url = js ''https://www.reddit.com/r/a/1'', title = js ''first'',
             snippet = js ''x'', content = None\<rparr>"

definition post_b :: doc where
  "post_b = \<lparr>url = js ''https://www.reddit.com/r/a/1'', title = js ''second'',
             snippet = js ''y'', content = None\<rparr>"

text \<open>A world whose Reddit JSON search answers with \<open>post_a\<close> and \<open>post_b\<close>.\<close>

definition duplicate_world :: world where
  "duplicate_world = calm_world\<lparr>searchRedditJSON := (\<lambda>t. Inr [post_a, post_b])\<rparr>"

text \<open>A world whose Reddit JSON search answers with ten posts, \<open>post_a\<close> and
  \<open>post_b\<close> five times.\<close>

definition crowded_world :: world where
  "crowded_world =
     calm_world\<lparr>searchRedditJSON := (\<lambda>t. Inr (concat (replicate 5 [post_a, post_b])))\<rparr>"

text \<open>The process right after start, and a niche.\<close>

definition fresh_sys :: sys where
  "fresh_sys =
     \<lparr>tick = 0, activeRuns = Map.empty, reportStore = Map.empty, taskState = Map.empty,
      blocksHeap = Map.empty, llm_client = False, acontext_client = False, pending = [],
      trace = []\<rparr>"

definition designers :: jsstring where
  "designers = js ''freelance designers''"


section \<open>Properties\<close>

subsection \<open>Deduplication\<close>

lemma unique_filter_urls:
  "url ` set (unique_filter seen xs) = url ` set xs - seen - {[]}"
  by (induction xs arbitrary: seen) auto

lemma unique_filter_distinct:
  "distinct (map url (unique_filter seen xs))"
proof (induction xs arbitrary: seen)
  case Nil
  show ?case by simp
next
  case (Cons r rest)
  have "url r \<notin> url ` set (unique_filter (insert (url r) seen) rest)"
    by (simp add: unique_filter_urls)
  with Cons show ?case by simp
qed

lemma unique_filter_skip:
  "url ` set ys \<subseteq> seen \<union> {[]} \<Longrightarrow> unique_filter seen ys = []"
  by (induction ys) auto

lemma unique_filter_append:
  "unique_filter seen (xs @ ys) =
   unique_filter seen xs @ unique_filter (seen \<union> (url ` set xs - {[]})) ys"
proof (induction xs arbitrary: seen)
  case Nil
  show ?case by simp
next
  case (Cons r rest)
  have a: "url r \<in> seen \<Longrightarrow> seen \<union> (url ` set (r # rest) - {[]}) = seen \<union> (url ` set rest - {[]})"
    by auto
  have b: "url r \<noteq> [] \<Longrightarrow>
      seen \<union> (url ` set (r # rest) - {[]}) = insert (url r) seen \<union> (url ` set rest - {[]})"
    by auto
  have c: "url r = [] \<Longrightarrow> seen \<union> (url ` set (r # rest) - {[]}) = seen \<union> (url ` set rest - {[]})"
    by auto
  show ?case using Cons a b c by auto
qed

lemma unique_filter_idem_gen:
  "seen' \<subseteq> seen \<Longrightarrow> unique_filter seen' (unique_filter seen xs) = unique_filter seen xs"
proof (induction xs arbitrary: seen seen')
  case Nil
  show ?case by simp
next
  case (Cons r rest)
  show ?case
  proof (cases "url r = [] \<or> url r \<in> seen")
    case True
    then show ?thesis using Cons by simp
  next
    case False
    then have "url r \<notin> seen'" using Cons.prems by auto
    moreover have "insert (url r) seen' \<subseteq> insert (url r) seen" using Cons.prems by auto
    ultimately show ?thesis using False Cons.IH by simp
  qed
qed

lemma unique_filter_count:
  "length (filter (\<lambda>r. url r = u) (unique_filter seen xs)) =
   (if u \<noteq> [] \<and> u \<notin> seen \<and> u \<in> url ` set xs then 1 else 0)"
proof (induction xs arbitrary: seen)
  case Nil
  show ?case by simp
next
  case (Cons r rest)
  show ?case using Cons[of seen] Cons[of "insert (url r) seen"] by auto
qed

lemma dedupeBy_filter_keys:
  "keyFn ` set (dedupeBy_filter keyFn seen xs) = keyFn ` set xs - seen"
  by (induction xs arbitrary: seen) (auto simp: Let_def)

lemma dedupeBy_filter_distinct:
  "distinct (map keyFn (dedupeBy_filter keyFn seen xs))"
proof (induction xs arbitrary: seen)
  case Nil
  show ?case by simp
next
  case (Cons r rest)
  have "keyFn r \<notin> keyFn ` set (dedupeBy_filter keyFn (insert (keyFn r) seen) rest)"
    by (simp add: dedupeBy_filter_keys)
  with Cons show ?case by (simp add: Let_def)
qed

lemma dedupeBy_filter_idem_gen:
  "seen' \<subseteq> seen \<Longrightarrow>
   dedupeBy_filter keyFn seen' (dedupeBy_filter keyFn seen xs) = dedupeBy_filter keyFn seen xs"
proof (induction xs arbitrary: seen seen')
  case Nil
  show ?case by simp
next
  case (Cons r rest)
  show ?case
  proof (cases "keyFn r \<in> seen")
    case True
    then show ?thesis using Cons by (simp add: Let_def)
  next
    case False
    then have "keyFn r \<notin> seen'" using Cons.prems by auto
    moreover have "insert (keyFn r) seen' \<subseteq> insert (keyFn r) seen" using Cons.prems by auto
    ultimately show ?thesis using False Cons.IH by (simp add: Let_def)
  qed
qed

lemma only_refl: "only w P s s"
  by (simp add: only_def)

lemma only_trace_eq:
  "trace s' = trace s \<Longrightarrow> activeRuns s' = activeRuns s \<Longrightarrow> pending s' = pending s \<Longrightarrow>
   llm_client s' = llm_client s \<Longrightarrow> tick s \<le> tick s' \<Longrightarrow> only w P s0 s \<Longrightarrow> only w P s0 s'"
  by (simp add: only_def)

lemma only_emit: "only w P s0 s \<Longrightarrow> P (Emit e ev) \<Longrightarrow> only w P s0 (emit e ev s)"
  by (auto simp: only_def emit_def)

lemma only_logger: "logs_ok P \<Longrightarrow> only w P s0 s \<Longrightarrow> only w P s0 (logger l m s)"
  by (auto simp: only_def logger_def logs_ok_def)

lemma only_ask: "only w P s0 s \<Longrightarrow> only w P s0 (snd (ask f s))"
  by (simp add: only_def ask_def)

lemma only_ret: "only w P s0 s \<Longrightarrow> only w P s0 (snd (ret v s))"
  by (simp add: ret_def)

lemma only_lift: "only w P s0 (g s) \<Longrightarrow> only w P s0 (snd (lift g s))"
  by (simp add: lift_def)

lemma only_total: "only w P s0 (snd (f s)) \<Longrightarrow> only w P s0 (snd (total f s))"
  by (cases "f s") (simp add: total_def)

lemma only_andThen:
  assumes "\<And>s. only w P s0 s \<Longrightarrow> only w P s0 (snd (m s))"
      and "\<And>v s. only w P s0 s \<Longrightarrow> only w P s0 (snd (f v s))"
      and "only w P s0 s"
  shows "only w P s0 (snd (andThen m f s))"
  using assms by (auto simp: andThen_def split: prod.splits sum.splits) (metis snd_conv)+

lemma only_stmt: "only w P s0 (g l s) \<Longrightarrow> only w P s0 (snd (stmt g l s))"
  by (simp add: stmt_def)

lemma only_await:
  assumes "\<And>s. only w P s0 s \<Longrightarrow> only w P s0 (snd (f l s))" and "only w P s0 s"
  shows "only w P s0 (snd (await f a l s))"
  using assms by (auto simp: await_def split: prod.splits sum.splits) (metis snd_conv)+

lemma only_run_steps:
  assumes "\<And>f l s. f \<in> set fs \<Longrightarrow> only w P s0 s \<Longrightarrow> only w P s0 (snd (f l s))"
      and "only w P s0 s"
  shows "only w P s0 (snd (run_steps fs l s))"
  using assms
proof (induction fs arbitrary: l s)
  case Nil
  then show ?case by simp
next
  case (Cons f fs)
  have step: "only w P s0 (snd (f l s))" using Cons.prems by simp
  show ?case
  proof (cases "f l s")
    case (Pair a s')
    then obtain err l' where a: "a = (err, l')" by (cases a) auto
    from step Pair have s': "only w P s0 s'" by simp
    show ?thesis
    proof (cases err)
      case None
      have "only w P s0 (snd (run_steps fs l' s'))"
        using Cons.IH[of s' l'] Cons.prems(1) s' by simp
      then show ?thesis using Pair a None by simp
    next
      case (Some e)
      then show ?thesis using Pair a s' by simp
    qed
  qed
qed

lemma only_acontext_getClient: "only w P s0 s \<Longrightarrow> only w P s0 (snd (acontext_getClient w s))"
  by (simp add: acontext_getClient_def only_def)

lemma only_createSession: "only w P s0 s \<Longrightarrow> only w P s0 (snd (createSession w n s))"
  unfolding createSession_def
  by (intro only_andThen only_ask only_ret only_acontext_getClient)

lemma only_storeMessage: "only w P s0 s \<Longrightarrow> only w P s0 (snd (storeMessage w sid s))"
  unfolding storeMessage_def
  by (intro only_andThen only_ask only_ret only_acontext_getClient)

lemma only_flushAndSummarise: "only w P s0 s \<Longrightarrow> only w P s0 (snd (flushAndSummarise w sid s))"
  unfolding flushAndSummarise_def
  by (intro only_andThen only_ask only_ret only_acontext_getClient)

lemma only_try:
  assumes "only w P s0 (snd (m s))"
      and "\<And>v s'. only w P s0 s' \<Longrightarrow> only w P s0 (snd (f v s'))"
      and "\<And>e s'. only w P s0 s' \<Longrightarrow> only w P s0 (snd (g e s'))"
  shows "only w P s0 (snd (case m s of (Inr v, s') \<Rightarrow> f v s' | (Inl e, s') \<Rightarrow> g e s'))"
proof (cases "m s")
  case (Pair r s')
  then show ?thesis using assms by (cases r) auto
qed

lemma only_writeReport: "only w P s0 s \<Longrightarrow> only w P s0 (snd (writeReport w sid r s))"
proof -
  assume a: "only w P s0 s"
  obtain now s1 where ask: "ask (Date_now w) s = (now, s1)" by (cases "ask (Date_now w) s")
  have s1: "only w P s0 s1" using only_ask[OF a, of "Date_now w"] ask by simp
  define s2 where "s2 = s1\<lparr>reportStore := (reportStore s1)
      (sid \<mapsto> (spread (case reportStore s sid of None \<Rightarrow> empty_report | Some r \<Rightarrow> r) r)
          \<lparr>rp_updatedAt := Some now\<rparr>)\<rparr>"
  have s2: "only w P s0 s2" using s1 by (simp add: s2_def only_def)
  have "only w P s0 (snd (andThen (acontext_getClient w) (\<lambda>client.
         andThen (ask (sessions_storeMessage w)) (\<lambda>_ s'.
         ret (reportStore s' sid) s')) s2))"
    by (intro only_andThen only_ask only_ret only_acontext_getClient s2)
  then show ?thesis
    by (simp add: writeReport_def Let_def ask s2_def)
qed

lemma only_createLearningSpace:
  "logs_ok P \<Longrightarrow> only w P s0 s \<Longrightarrow> only w P s0 (snd (createLearningSpace w n sid s))"
  unfolding createLearningSpace_def
  by (intro only_andThen only_try only_ask only_ret only_acontext_getClient)
     (simp_all add: only_logger)

lemma only_initTaskBlocks: "only w P s0 s \<Longrightarrow> only w P s0 (initTaskBlocks sid s)"
  by (simp add: only_def initTaskBlocks_def)

lemma only_updateTaskBlock: "only w P s0 s \<Longrightarrow> only w P s0 (updateTaskBlock sid t st s)"
  by (simp add: only_def updateTaskBlock_def split: option.splits)

lemma only_llm_getClient: "only w P s0 s \<Longrightarrow> only w P s0 (snd (llm_getClient w s))"
  by (simp add: llm_getClient_def only_def)

lemma only_callGPT: "only w P s0 s \<Longrightarrow> only w P s0 (snd (callGPT w s))"
  unfolding callGPT_def
  by (intro only_andThen only_ask only_llm_getClient)

lemma only_extractPainPoints:
  "logs_ok P \<Longrightarrow> only w P s0 s \<Longrightarrow> only w P s0 (snd (extractPainPoints w posts n s))"
  unfolding extractPainPoints_def
  by (intro only_andThen only_callGPT) (auto simp: Let_def intro: only_logger)

lemma only_rankAndSelectProblem:
  "logs_ok P \<Longrightarrow> only w P s0 s \<Longrightarrow> only w P s0 (snd (rankAndSelectProblem w pp n s))"
  unfolding rankAndSelectProblem_def
  by (intro only_andThen only_callGPT) (auto simp: Let_def intro: only_logger)

lemma only_analyseCompetitorData:
  "only w P s0 s \<Longrightarrow> only w P s0 (snd (analyseCompetitorData w cr tp s))"
  unfolding analyseCompetitorData_def
  by (intro only_andThen only_callGPT only_ret)

lemma only_generateOpportunityBrief:
  "logs_ok P \<Longrightarrow> only w P s0 s \<Longrightarrow>
   only w P s0 (snd (generateOpportunityBrief w n tp ga cr pp s))"
  unfolding generateOpportunityBrief_def
  apply (cases "has_slice pp")
   apply simp_all
  apply (intro only_andThen only_callGPT)
   apply (auto simp: Let_def intro: only_logger)
  done

lemma only_cleanAndFilterPosts:
  "logs_ok P \<Longrightarrow> only w P s0 s \<Longrightarrow> only w P s0 (snd (cleanAndFilterPosts w posts n s))"
proof -
  assume l: "logs_ok P" and a: "only w P s0 s"
  obtain r s' where c: "callGPT w s = (r, s')" by (cases "callGPT w s")
  have s': "only w P s0 s'" using only_callGPT[OF a] c by simp
  show ?thesis
    using s' l c
    by (cases r) (auto simp: cleanAndFilterPosts_def Let_def only_logger split: json.splits)
qed

lemma only_google_pages:
  "logs_ok P \<Longrightarrow> only w P s0 s \<Longrightarrow> only w P s0 (snd (google_pages w pages acc s))"
proof (induction pages arbitrary: acc s)
  case Nil
  then show ?case by simp
next
  case (Cons page pages)
  obtain r s' where a: "ask (searchWeb w) s = (r, s')" by (cases "ask (searchWeb w) s")
  have s': "only w P s0 s'" using only_ask[OF Cons.prems(2), of "searchWeb w"] a by simp
  show ?case
  proof (cases r)
    case (Inl err)
    then show ?thesis using a s' Cons.prems(1) Cons.IH by (simp add: only_logger)
  next
    case (Inr hits)
    then show ?thesis using a s' Cons.prems(1) Cons.IH by (simp add: Let_def)
  qed
qed

lemma only_google_queries:
  "logs_ok P \<Longrightarrow> only w P s0 s \<Longrightarrow> only w P s0 (snd (google_queries w k acc s))"
proof (induction k arbitrary: acc s)
  case 0
  then show ?case by simp
next
  case (Suc k)
  obtain acc' s' where a: "google_pages w [0, 1] acc s = (acc', s')"
    by (cases "google_pages w [0, 1] acc s")
  have s': "only w P s0 s'" using only_google_pages[OF Suc.prems, of "[0, 1]" acc] a by simp
  show ?case using a s' Suc.prems(1) Suc.IH by simp
qed

lemma only_strategy0: "logs_ok P \<Longrightarrow> only w P s0 s \<Longrightarrow> only w P s0 (snd (strategy0 w s))"
proof -
  assume l: "logs_ok P" and a: "only w P s0 s"
  obtain r s' where k: "ask (searchRedditJSON w) s = (r, s')" by (cases "ask (searchRedditJSON w) s")
  have "only w P s0 s'" using only_ask[OF a, of "searchRedditJSON w"] k by simp
  then show ?thesis using l k by (cases r) (simp_all add: strategy0_def only_logger)
qed

lemma only_strategy1: "logs_ok P \<Longrightarrow> only w P s0 s \<Longrightarrow> only w P s0 (snd (strategy1 w acc s))"
proof -
  assume l: "logs_ok P" and a: "only w P s0 s"
  obtain r s' where k: "ask (searchRedditWithWebData w) s = (r, s')"
    by (cases "ask (searchRedditWithWebData w) s")
  have "only w P s0 s'" using only_ask[OF a, of "searchRedditWithWebData w"] k by simp
  then show ?thesis using l k a by (cases r) (simp_all add: strategy1_def only_logger)
qed

lemma only_strategy2: "logs_ok P \<Longrightarrow> only w P s0 s \<Longrightarrow> only w P s0 (snd (strategy2 w acc s))"
  by (simp add: strategy2_def only_google_queries)

lemma only_strategy3: "logs_ok P \<Longrightarrow> only w P s0 s \<Longrightarrow> only w P s0 (snd (strategy3 w acc s))"
proof -
  assume l: "logs_ok P" and a: "only w P s0 s"
  obtain r s' where k: "ask (searchRedditDirect w) s = (r, s')"
    by (cases "ask (searchRedditDirect w) s")
  have "only w P s0 s'" using only_ask[OF a, of "searchRedditDirect w"] k by simp
  then show ?thesis using l k a by (cases r) (simp_all add: strategy3_def only_logger)
qed

lemma only_searchRedditPainPoints:
  assumes l: "logs_ok P" and a: "only w P s0 s"
  shows "only w P s0 (snd (searchRedditPainPoints w n s))"
proof (cases "n = [] \<or> trim n = []")
  case True
  then show ?thesis using l a by (auto simp: searchRedditPainPoints_def only_logger)
next
  case False
  obtain a0 t0 where r0: "strategy0 w s = (a0, t0)" by (cases "strategy0 w s")
  obtain a1 t1 where r1: "strategy1 w a0 t0 = (a1, t1)" by (cases "strategy1 w a0 t0")
  obtain a2 t2 where r2: "strategy2 w a1 t1 = (a2, t2)" by (cases "strategy2 w a1 t1")
  obtain a3 t3 where r3: "strategy3 w a2 t2 = (a3, t3)" by (cases "strategy3 w a2 t2")
  have "only w P s0 t0" using only_strategy0[OF l a] r0 by simp
  then have "only w P s0 t1" using only_strategy1[OF l, of w s0 t0 a0] r1 by simp
  then have "only w P s0 t2" using only_strategy2[OF l, of w s0 t1 a1] r2 by simp
  then have "only w P s0 t3" using only_strategy3[OF l, of w s0 t2 a2] r3 by simp
  then show ?thesis using False l r0 r1 r2 r3
    by (simp add: searchRedditPainPoints_def only_logger)
qed

lemma only_scrapeRedditPosts: "only w P s0 s \<Longrightarrow> only w P s0 (snd (scrapeRedditPosts w urls s))"
  by (simp add: scrapeRedditPosts_def only_ask)

lemma only_scrapeCompetitorPage:
  "only w P s0 s \<Longrightarrow> only w P s0 (snd (scrapeCompetitorPage w u s))"
  by (simp add: scrapeCompetitorPage_def only_ask)

lemma only_closeBrightData: "only w P s0 s \<Longrightarrow> only w P s0 (snd (closeBrightData w s))"
  by (simp add: closeBrightData_def only_ask)

lemma only_fold_emit:
  "(\<And>a. P (Emit e (g a))) \<Longrightarrow> only w P s0 s \<Longrightarrow> only w P s0 (fold (\<lambda>a. emit e (g a)) as s)"
  by (induction as arbitrary: s) (simp_all add: only_emit)

lemma only_checkCompetitorGap:
  assumes "\<And>c a. P (Emit e (BrowserAction c a))" and "only w P s0 s"
  shows "only w P s0 (snd (checkCompetitorGap w c kw (emit e) s))"
proof -
  obtain out s' where a: "ask (checkCompetitorGap_out w) s = (out, s')"
    by (cases "ask (checkCompetitorGap_out w) s")
  have "only w P s0 s'" using only_ask[OF assms(2), of "checkCompetitorGap_out w"] a by simp
  then have "only w P s0 (fold (\<lambda>action. emit e (BrowserAction (c_name c) action)) (co_actions out) s')"
    using assms(1) by (intro only_fold_emit) auto
  then show ?thesis by (simp add: checkCompetitorGap_def a)
qed

lemma only_verifyAllCompetitors_loop:
  assumes "\<And>c a. P (Emit e (BrowserAction c a))" 
  shows "only w P s0 s \<Longrightarrow> only w P s0 (snd (verifyAllCompetitors_loop w cs kw (emit e) acc s))"
proof (induction cs arbitrary: acc s)
  case Nil
  then show ?case by simp
next
  case (Cons c cs)
  obtain r s' where a: "checkCompetitorGap w c kw (emit e) s = (r, s')"
    by (cases "checkCompetitorGap w c kw (emit e) s")
  have "only w P s0 s'" using only_checkCompetitorGap[OF assms Cons.prems, of c kw] a by simp
  then show ?case using a Cons.IH by (cases r) simp_all
qed

lemma only_verifyAllCompetitors:
  assumes "\<And>c a. P (Emit e (BrowserAction c a))" and "only w P s0 s"
  shows "only w P s0 (snd (verifyAllCompetitors w kw (emit e) s))"
  unfolding verifyAllCompetitors_def using assms by (rule only_verifyAllCompetitors_loop)

lemma only_fallback_scrape:
  assumes "\<And>c a. P (Emit e (BrowserAction c a))" 
  shows "only w P s0 s \<Longrightarrow> only w P s0 (snd (fallback_scrape w e rs s))"
proof (induction rs arbitrary: s)
  case Nil
  then show ?case by simp
next
  case (Cons r rs)
  show ?case
  proof (cases "\<not> cr_success r \<and> cr_notes r = []")
    case True
    obtain page s' where a: "scrapeCompetitorPage w (cr_pricingUrl r)
                   (emit e (BrowserAction (cr_name r) ''fallback'') s) = (page, s')"
      by (cases "scrapeCompetitorPage w (cr_pricingUrl r)
                   (emit e (BrowserAction (cr_name r) ''fallback'') s)")
    have "only w P s0 (emit e (BrowserAction (cr_name r) ''fallback'') s)"
      using Cons.prems assms by (simp add: only_emit)
    from only_scrapeCompetitorPage[OF this, of "cr_pricingUrl r"] a
    have "only w P s0 s'" by simp
    from Cons.IH[OF this] show ?thesis using True a
      by (cases "fallback_scrape w e rs s'") simp
  next
    case False
    from Cons.IH[OF Cons.prems] show ?thesis using False
      by (cases "fallback_scrape w e rs s") auto
  qed
qed

lemma run_steps_locals:
  assumes "\<And>f l s. f \<in> set fs \<Longrightarrow> I l \<Longrightarrow> I (snd (fst (f l s)))" and "I l"
  shows "I (snd (fst (run_steps fs l s)))"
  using assms
proof (induction fs arbitrary: l s)
  case Nil
  then show ?case by simp
next
  case (Cons f fs)
  have step: "I (snd (fst (f l s)))" using Cons.prems by simp
  obtain err l' s' where r: "f l s = ((err, l'), s')" by (cases "f l s") auto
  from step r have l': "I l'" by simp
  show ?case
  proof (cases err)
    case None
    have "I (snd (fst (run_steps fs l' s')))"
      using Cons.IH[of l' s'] Cons.prems(1) l' by simp
    then show ?thesis using r None by simp
  next
    case (Some e)
    then show ?thesis using r l' by simp
  qed
qed

lemma locals_stmt: "snd (fst (stmt g l s)) = l"
  by (simp add: stmt_def)

lemma locals_await:
  "snd (fst (await f a l s)) = (case fst (f l s) of Inl e \<Rightarrow> l | Inr v \<Rightarrow> a v l)"
  by (cases "f l s"; cases "fst (f l s)") (auto simp: await_def)

lemma searchRedditPainPoints_distinct:
  "distinct (map url (fst (searchRedditPainPoints w n s)))"
  by (auto simp: searchRedditPainPoints_def unique_filter_distinct split: prod.splits)

lemma searchRedditPainPoints_allResults:
  "fst (searchRedditPainPoints w n s)
   = (if n = [] \<or> trim n = [] then [] else unique_filter {} (fst (allResults w s)))"
  by (simp add: searchRedditPainPoints_def allResults_def split: prod.splits)

lemma unique_filter_find:
  "find (\<lambda>r. url r = u) (unique_filter seen xs)
   = (if u = [] \<or> u \<in> seen then None else find (\<lambda>r. url r = u) xs)"
  by (induction xs arbitrary: seen) auto

lemma scout_locals_searchResults:
  "sl_searchResults
      (snd (fst (run_steps (scout_try w st) \<lparr>sl_searchResults = [], sl_rawPosts = []\<rparr> s)))
   = fst (searchRedditPainPoints w (niche st) s)"
proof -
  obtain v s1 where r: "searchRedditPainPoints w (niche st) s = (v, s1)"
    by (cases "searchRedditPainPoints w (niche st) s")
  define rest where "rest = tl (scout_try w st)"
  have first: "run_steps (scout_try w st) \<lparr>sl_searchResults = [], sl_rawPosts = []\<rparr> s
               = run_steps rest \<lparr>sl_searchResults = v, sl_rawPosts = []\<rparr> s1"
    by (simp add: scout_try_def rest_def await_def total_def r)
  have keep: "sl_searchResults (snd (fst (run_steps rest l s'))) = v"
    if "sl_searchResults l = v" for l :: scout_locals and s'
  proof (rule run_steps_locals[where I = "\<lambda>l::scout_locals. sl_searchResults l = v"])
    fix f and l :: scout_locals and s
    assume f: "f \<in> set rest" and I: "sl_searchResults l = v"
    from f I show "sl_searchResults (snd (fst (f l s))) = v"
      unfolding rest_def scout_try_def
      by (auto simp: locals_stmt locals_await split: sum.splits)
  qed (rule that)
  show ?thesis using first keep[of "\<lparr>sl_searchResults = v, sl_rawPosts = []\<rparr>" s1] r by simp
qed

lemma scoutNode_searchResults_eq:
  "searchResults (merge st (fst (scoutNode w st s)))
   = fst (searchRedditPainPoints w (niche st) (emit (emit_fn st) (PhaseStart Scout) s))"
proof -
  let ?r = "run_steps (scout_try w st) \<lparr>sl_searchResults = [], sl_rawPosts = []\<rparr>
             (emit (emit_fn st) (PhaseStart Scout) s)"
  obtain err l s' where r: "?r = ((err, l), s')" by (cases ?r) auto
  have d: "sl_searchResults l
           = fst (searchRedditPainPoints w (niche st) (emit (emit_fn st) (PhaseStart Scout) s))"
    using scout_locals_searchResults[of w st "emit (emit_fn st) (PhaseStart Scout) s"] r by simp
  show ?thesis
    using r d
    by (cases err)
       (simp_all add: scoutNode_def merge_def reduce_def replace_reducer_def no_update_def)
qed

lemma scoutNode_searchResults:
  "distinct (map url (searchResults (merge st (fst (scoutNode w st s)))))"
  by (simp only: scoutNode_searchResults_eq searchRedditPainPoints_distinct)

lemma unique_filter_remerge:
  "url ` set ys \<subseteq> url ` set xs \<Longrightarrow>
   unique_filter {} (unique_filter {} xs @ ys) = unique_filter {} xs"
proof -
  assume a: "url ` set ys \<subseteq> url ` set xs"
  have "url ` set ys \<subseteq> ({} \<union> (url ` set (unique_filter {} xs) - {[]})) \<union> {[]}"
    using a by (auto simp: unique_filter_urls)
  then have "unique_filter ({} \<union> (url ` set (unique_filter {} xs) - {[]})) ys = []"
    by (rule unique_filter_skip)
  then show ?thesis
    by (simp add: unique_filter_append unique_filter_idem_gen)
qed

lemma searchRedditPainPoints_count:
  "length (filter (\<lambda>r. url r = u) (fst (searchRedditPainPoints w n s)))
   = (if n \<noteq> [] \<and> trim n \<noteq> [] \<and> u \<noteq> [] \<and> u \<in> url ` set (fst (allResults w s))
      then 1 else 0)"
proof (cases "n = [] \<or> trim n = []")
  case True
  then show ?thesis by (auto simp: searchRedditPainPoints_allResults)
next
  case False
  then have "fst (searchRedditPainPoints w n s) = unique_filter {} (fst (allResults w s))"
    by (simp add: searchRedditPainPoints_allResults)
  then show ?thesis
    using False unique_filter_count[of u "{}" "fst (allResults w s)"] by simp
qed

lemma searchRedditPainPoints_find:
  "find (\<lambda>r. url r = u) (fst (searchRedditPainPoints w n s))
   = (if n = [] \<or> trim n = [] \<or> u = [] then None
      else find (\<lambda>r. url r = u) (fst (allResults w s)))"
  by (simp add: searchRedditPainPoints_allResults unique_filter_find)

lemma google_pages_appends:
  "\<exists>more. fst (google_pages w pages a s) = a @ more"
proof (induction pages arbitrary: a s)
  case Nil
  show ?case by simp
next
  case (Cons page pages)
  obtain r s' where k: "ask (searchWeb w) s = (r, s')" by (cases "ask (searchWeb w) s")
  show ?case
  proof (cases r)
    case (Inl err)
    then show ?thesis using k Cons[of a "logger Warn (''Google query failed: '' @ err) s'"]
      by simp
  next
    case (Inr hits)
    let ?rh = "filter (\<lambda>r. js_includes (url r) (js ''reddit.com/r/'')) hits"
    let ?a' = "if ?rh \<noteq> [] then a @ ?rh else a"
    from Cons[of ?a' s'] obtain more where m: "fst (google_pages w pages ?a' s') = ?a' @ more"
      by blast
    have "\<exists>m2. ?a' @ more = a @ m2" by (cases "?rh \<noteq> []") auto
    then show ?thesis using k Inr m by (auto simp: Let_def)
  qed
qed

lemma google_queries_appends:
  "\<exists>more. fst (google_queries w q a s) = a @ more"
proof (induction q arbitrary: a s)
  case 0
  show ?case by simp
next
  case (Suc q)
  obtain a' s' where p: "google_pages w [0, 1] a s = (a', s')"
    by (cases "google_pages w [0, 1] a s")
  from google_pages_appends[of w "[0, 1]" a s] p obtain m1 where m1: "a' = a @ m1" by auto
  from Suc[of a' s'] obtain m2 where m2: "fst (google_queries w q a' s') = a' @ m2" by blast
  show ?case using p m1 m2 by (cases "20 \<le> length a'") auto
qed

lemma strategy1_appends: "\<exists>more. fst (strategy1 w a s) = a @ more"
  by (auto simp: strategy1_def split: prod.splits sum.splits)

lemma strategy2_appends: "\<exists>more. fst (strategy2 w a s) = a @ more"
  using google_queries_appends[of w 3 a s] by (auto simp: strategy2_def)

lemma strategy3_appends: "\<exists>more. fst (strategy3 w a s) = a @ more"
  by (auto simp: strategy3_def split: prod.splits sum.splits)

lemma allResults_first:
  assumes "searchRedditJSON w (tick s) = Inr posts"
  shows "\<exists>more. fst (allResults w s) = posts @ more"
    and "10 \<le> length posts \<Longrightarrow> fst (allResults w s) = posts"
proof -
  obtain s0 where s0: "strategy0 w s = (posts, s0)"
    using assms by (simp add: strategy0_def ask_def)
  obtain a1 s1 where s1: "strategy1 w posts s0 = (a1, s1)" by (cases "strategy1 w posts s0")
  obtain a2 s2 where s2: "strategy2 w a1 s1 = (a2, s2)" by (cases "strategy2 w a1 s1")
  obtain a3 s3 where s3: "strategy3 w a2 s2 = (a3, s3)" by (cases "strategy3 w a2 s2")
  have r: "fst (allResults w s) = a3" by (simp add: allResults_def s0 s1 s2 s3)
  from strategy1_appends[of w posts s0] s1 obtain m1 where m1: "a1 = posts @ m1" by auto
  from strategy2_appends[of w a1 s1] s2 obtain m2 where m2: "a2 = a1 @ m2" by auto
  from strategy3_appends[of w a2 s2] s3 obtain m3 where m3: "a3 = a2 @ m3" by auto
  show "\<exists>more. fst (allResults w s) = posts @ more" by (simp add: r m1 m2 m3)
  show "fst (allResults w s) = posts" if "10 \<le> length posts"
  proof -
    have "a1 = posts" using s1 that by (simp add: strategy1_def)
    moreover have "a2 = a1" using s2 that calculation by (simp add: strategy2_def)
    moreover have "a3 = a2" using s3 that calculation by (simp add: strategy3_def)
    ultimately show ?thesis by (simp add: r)
  qed
qed

text \<open>
  C8. The search results that reach the run state are deduplicated by URL. The filter
  that closes \<open>searchRedditPainPoints\<close> keeps exactly one entry for every non-empty
  URL of its input, the first one in the order of collection, whatever the titles and
  snippets (entries without a URL are dropped); filtering again, or merging entries
  whose URLs are already present and filtering, changes nothing. The result of
  \<open>searchRedditPainPoints\<close> for a niche that is not blank is that filter applied to
  what the four strategies collected (\<open>allResults\<close>): it holds exactly one entry for
  every non-empty URL collected, the first one collected, and none for any other URL;
  for a blank niche it is empty. What the strategies collect starts with the posts the
  Reddit JSON search answered, and is exactly those posts when they are ten or more.
  The \<open>searchResults\<close> of the state after \<open>scoutNode\<close> are exactly the result of
  \<open>searchRedditPainPoints\<close>, whether or not the rest of the phase fails, so they hold
  one entry per collected URL too. The helper \<open>dedupeBy\<close> keeps one entry per
  (string) key and is idempotent.
\<close>

theorem search_results_deduplicated:
  "distinct (map url (unique_filter {} xs))
   \<and> length (filter (\<lambda>r. url r = u) (unique_filter {} xs))
       = (if u \<noteq> [] \<and> u \<in> url ` set xs then 1 else 0)
   \<and> unique_filter {} (unique_filter {} xs) = unique_filter {} xs
   \<and> (url ` set ys \<subseteq> url ` set xs \<longrightarrow>
        unique_filter {} (unique_filter {} xs @ ys) = unique_filter {} xs)
   \<and> find (\<lambda>r. url r = u) (unique_filter {} xs)
       = (if u = [] then None else find (\<lambda>r. url r = u) xs)
   \<and> fst (searchRedditPainPoints w n s)
       = (if n = [] \<or> trim n = [] then [] else unique_filter {} (fst (allResults w s)))
   \<and> length (filter (\<lambda>r. url r = u) (fst (searchRedditPainPoints w n s)))
       = (if n \<noteq> [] \<and> trim n \<noteq> [] \<and> u \<noteq> [] \<and> u \<in> url ` set (fst (allResults w s))
          then 1 else 0)
   \<and> find (\<lambda>r. url r = u) (fst (searchRedditPainPoints w n s))
       = (if n = [] \<or> trim n = [] \<or> u = [] then None
          else find (\<lambda>r. url r = u) (fst (allResults w s)))
   \<and> distinct (map url (fst (searchRedditPainPoints w n s)))
   \<and> (searchRedditJSON w (tick s) = Inr posts \<longrightarrow>
        (\<exists>more. fst (allResults w s) = posts @ more)
        \<and> (10 \<le> length posts \<longrightarrow>
             fst (allResults w s) = posts
             \<and> fst (searchRedditPainPoints w n s)
                 = (if n = [] \<or> trim n = [] then [] else unique_filter {} posts)))
   \<and> searchResults (merge st (fst (scoutNode w st s0)))
       = fst (searchRedditPainPoints w (niche st) (emit (emit_fn st) (PhaseStart Scout) s0))
   \<and> length (filter (\<lambda>r. url r = u) (searchResults (merge st (fst (scoutNode w st s0)))))
       = (if niche st \<noteq> [] \<and> trim (niche st) \<noteq> [] \<and> u \<noteq> []
             \<and> u \<in> url ` set (fst (allResults w (emit (emit_fn st) (PhaseStart Scout) s0)))
          then 1 else 0)
   \<and> find (\<lambda>r. url r = u) (searchResults (merge st (fst (scoutNode w st s0))))
       = (if niche st = [] \<or> trim (niche st) = [] \<or> u = [] then None
          else find (\<lambda>r. url r = u)
                 (fst (allResults w (emit (emit_fn st) (PhaseStart Scout) s0))))
   \<and> distinct (map url (searchResults (merge st (fst (scoutNode w st s0)))))
   \<and> distinct (map keyFn (dedupeBy arr keyFn))
   \<and> keyFn ` set (dedupeBy arr keyFn) = keyFn ` set arr
   \<and> dedupeBy (dedupeBy arr keyFn) keyFn = dedupeBy arr keyFn"
proof -
  have c1: "length (filter (\<lambda>r. url r = u) (unique_filter {} xs))
       = (if u \<noteq> [] \<and> u \<in> url ` set xs then 1 else 0)"
    using unique_filter_count[of u "{}" xs] by simp
  have c2: "url ` set ys \<subseteq> url ` set xs \<longrightarrow>
        unique_filter {} (unique_filter {} xs @ ys) = unique_filter {} xs"
    by (simp add: unique_filter_remerge)
  have c3: "find (\<lambda>r. url r = u) (unique_filter {} xs)
       = (if u = [] then None else find (\<lambda>r. url r = u) xs)"
    by (simp add: unique_filter_find)
  have c4: "length (filter (\<lambda>r. url r = u) (searchResults (merge st (fst (scoutNode w st s0)))))
       = (if niche st \<noteq> [] \<and> trim (niche st) \<noteq> [] \<and> u \<noteq> []
             \<and> u \<in> url ` set (fst (allResults w (emit (emit_fn st) (PhaseStart Scout) s0)))
          then 1 else 0)"
    by (simp only: scoutNode_searchResults_eq searchRedditPainPoints_count)
  have c5: "find (\<lambda>r. url r = u) (searchResults (merge st (fst (scoutNode w st s0))))
       = (if niche st = [] \<or> trim (niche st) = [] \<or> u = [] then None
          else find (\<lambda>r. url r = u)
                 (fst (allResults w (emit (emit_fn st) (PhaseStart Scout) s0))))"
    by (simp only: scoutNode_searchResults_eq searchRedditPainPoints_find)
  have c6: "distinct (map keyFn (dedupeBy arr keyFn))"
    by (simp add: dedupeBy_def dedupeBy_filter_distinct)
  have c7: "keyFn ` set (dedupeBy arr keyFn) = keyFn ` set arr"
    by (simp add: dedupeBy_def dedupeBy_filter_keys)
  have c8: "dedupeBy (dedupeBy arr keyFn) keyFn = dedupeBy arr keyFn"
    by (simp add: dedupeBy_def dedupeBy_filter_idem_gen)
  have c9: "searchRedditJSON w (tick s) = Inr posts \<longrightarrow>
        (\<exists>more. fst (allResults w s) = posts @ more)
        \<and> (10 \<le> length posts \<longrightarrow>
             fst (allResults w s) = posts
             \<and> fst (searchRedditPainPoints w n s)
                 = (if n = [] \<or> trim n = [] then [] else unique_filter {} posts))"
    using allResults_first[of w s posts] by (simp add: searchRedditPainPoints_allResults)
  note rest = unique_filter_distinct[of "{}" xs] unique_filter_idem_gen[of "{}" "{}" xs, simplified]
    searchRedditPainPoints_allResults[of w n s] searchRedditPainPoints_count[of u w n s]
    searchRedditPainPoints_find[of u w n s] searchRedditPainPoints_distinct[of w n s]
    scoutNode_searchResults_eq[of st w s0] scoutNode_searchResults[of st w s0]
  from c1 c2 c3 c4 c5 c6 c7 c8 c9 rest show ?thesis by blast
qed

text \<open>Witness for C8: two entries with one URL and different titles, collected by the
  first strategy; the search returns the first of them, and so does the state after
  \<open>scoutNode\<close>; and so does the search when the first strategy answers ten posts
  with that URL.\<close>

theorem search_results_deduplicated_witness:
  "url ` set [post_b] \<subseteq> url ` set [post_a, post_b]
   \<and> unique_filter {} [post_a, post_b] = [post_a]
   \<and> unique_filter {} (unique_filter {} [post_a, post_b] @ [post_b]) = [post_a]
   \<and> fst (allResults duplicate_world fresh_sys) = [post_a, post_b]
   \<and> fst (searchRedditPainPoints duplicate_world designers fresh_sys) = [post_a]
   \<and> searchResults
        (merge (initial_state ''run-'' designers ''session-1'' None 1)
           (fst (scoutNode duplicate_world
                   (initial_state ''run-'' designers ''session-1'' None 1) fresh_sys)))
      = [post_a]
   \<and> searchRedditJSON crowded_world (tick fresh_sys)
       = Inr (concat (replicate 5 [post_a, post_b]))
   \<and> 10 \<le> length (concat (replicate 5 [post_a, post_b]))
   \<and> fst (searchRedditPainPoints crowded_world designers fresh_sys) = [post_a]"
proof -
  have u: "unique_filter {} [post_a, post_b] = [post_a]"
    by (simp add: post_a_def post_b_def js_def)
  have u5: "unique_filter {} (concat (replicate 5 [post_a, post_b])) = [post_a]"
    by (simp add: post_a_def post_b_def js_def numeral_eq_Suc)
  have j5: "searchRedditJSON crowded_world (tick fresh_sys)
            = Inr (concat (replicate 5 [post_a, post_b]))"
    by (simp add: crowded_world_def calm_world_def)
  have l5: "10 \<le> length (concat (replicate 5 [post_a, post_b]))"
    by (simp add: numeral_eq_Suc)
  have h: "url ` set [post_b] \<subseteq> url ` set [post_a, post_b]" by simp
  have a: "fst (allResults duplicate_world s) = [post_a, post_b]" for s
    by (simp add: allResults_def strategy0_def strategy1_def strategy2_def strategy3_def
          ask_def logger_def duplicate_world_def calm_world_def numeral_3_eq_3 Let_def)
  have d: "designers \<noteq> [] \<and> trim designers \<noteq> []"
    by (simp add: designers_def js_def trim_def is_ws_def)
  have n: "niche (initial_state ''run-'' designers ''session-1'' None 1) = designers"
    by (simp add: initial_state_def)
  let ?st = "initial_state ''run-'' designers ''session-1'' None 1"
  let ?s1 = "emit (emit_fn ?st) (PhaseStart Scout) fresh_sys"
  note T = search_results_deduplicated[where xs = "[post_a, post_b]" and u = "[]"
             and ys = "[post_b]" and w = duplicate_world and n = designers and s = fresh_sys
             and st = ?st and ?s0.0 = fresh_sys]
  note T' = search_results_deduplicated[where xs = "[post_a, post_b]" and u = "[]"
             and ys = "[post_b]" and w = duplicate_world and n = designers and s = ?s1
             and st = ?st and ?s0.0 = fresh_sys]
  note T5 = search_results_deduplicated[where xs = "[post_a, post_b]" and u = "[]"
             and ys = "[post_b]" and w = crowded_world and n = designers and s = fresh_sys
             and st = ?st and ?s0.0 = fresh_sys
             and posts = "concat (replicate 5 [post_a, post_b])"]
  from T5 j5 l5 have "fst (searchRedditPainPoints crowded_world designers fresh_sys)
      = (if designers = [] \<or> trim designers = [] then []
         else unique_filter {} (concat (replicate 5 [post_a, post_b])))"
    by blast
  then have p5: "fst (searchRedditPainPoints crowded_world designers fresh_sys) = [post_a]"
    using d u5 by simp
  from T h have r: "unique_filter {} (unique_filter {} [post_a, post_b] @ [post_b])
                    = unique_filter {} [post_a, post_b]"
    by blast
  from T have "fst (searchRedditPainPoints duplicate_world designers fresh_sys)
      = (if designers = [] \<or> trim designers = [] then []
         else unique_filter {} (fst (allResults duplicate_world fresh_sys)))"
    by blast
  then have p: "fst (searchRedditPainPoints duplicate_world designers fresh_sys) = [post_a]"
    using d a u by simp
  from T' have "fst (searchRedditPainPoints duplicate_world designers ?s1)
      = (if designers = [] \<or> trim designers = [] then []
         else unique_filter {} (fst (allResults duplicate_world ?s1)))"
    by blast
  then have p': "fst (searchRedditPainPoints duplicate_world designers ?s1) = [post_a]"
    using d a u by simp
  from T have "searchResults (merge ?st (fst (scoutNode duplicate_world ?st fresh_sys)))
      = fst (searchRedditPainPoints duplicate_world (niche ?st) ?s1)"
    by blast
  then have q: "searchResults (merge ?st (fst (scoutNode duplicate_world ?st fresh_sys)))
      = [post_a]"
    using p' n by simp
  from h u r a p q j5 l5 p5 show ?thesis by simp
qed

lemma merge_errors:
  "errors (merge st u) = errors st @ (case u_errors u of None \<Rightarrow> [] | Some v \<Rightarrow> v)"
  by (simp add: merge_def reduce_def errors_reducer_def split: option.splits)

lemma run_nodes_length: "length (fst (run_nodes nds st s)) = Suc (length nds)"
proof (induction nds arbitrary: st s)
  case Nil
  show ?case by simp
next
  case (Cons nd nds)
  obtain u s' where n: "nd st s = (u, s')" by (cases "nd st s")
  obtain sts s'' where r: "run_nodes nds (merge st u) s' = (sts, s'')"
    by (cases "run_nodes nds (merge st u) s'")
  show ?case using Cons[of "merge st u" s'] n r by simp
qed

lemma run_nodes_extend:
  "x \<in> set (fst (run_nodes nds st s)) \<Longrightarrow> \<exists>e. errors x = errors st @ e"
proof (induction nds arbitrary: st s)
  case Nil
  then show ?case by simp
next
  case (Cons nd nds)
  obtain u s' where n: "nd st s = (u, s')" by (cases "nd st s")
  obtain sts s'' where r: "run_nodes nds (merge st u) s' = (sts, s'')"
    by (cases "run_nodes nds (merge st u) s'")
  from Cons.prems n r have "x = st \<or> x \<in> set sts" by simp
  then show ?case
  proof
    assume "x = st" then show ?thesis by simp
  next
    assume "x \<in> set sts"
    then have "x \<in> set (fst (run_nodes nds (merge st u) s'))" using r by simp
    from Cons.IH[OF this] obtain e where "errors x = errors (merge st u) @ e" by blast
    then show ?thesis by (simp add: merge_errors)
  qed
qed

lemma run_nodes_sorted:
  "sorted_wrt (\<lambda>a b. \<exists>e. errors b = errors a @ e) (fst (run_nodes nds st s))"
proof (induction nds arbitrary: st s)
  case Nil
  then show ?case by simp
next
  case (Cons nd nds)
  obtain u s' where n: "nd st s = (u, s')" by (cases "nd st s")
  obtain sts s'' where r: "run_nodes nds (merge st u) s' = (sts, s'')"
    by (cases "run_nodes nds (merge st u) s'")
  have a: "\<forall>x\<in>set sts. \<exists>e. errors x = errors st @ e"
  proof
    fix x assume "x \<in> set sts"
    then have "x \<in> set (fst (run_nodes nds (merge st u) s'))" using r by simp
    from run_nodes_extend[OF this] obtain e where "errors x = errors (merge st u) @ e" by blast
    then show "\<exists>e. errors x = errors st @ e" by (simp add: merge_errors)
  qed
  have "sorted_wrt (\<lambda>a b. \<exists>e. errors b = errors a @ e) sts"
    using Cons.IH[of "merge st u" s'] r by simp
  then show ?case using n r a by simp
qed

lemma run_nodes_graph:
  "run_nodes (graph w) st0 s =
   (let r1 = scoutNode w st0 s; st1 = merge st0 (fst r1);
        r2 = brainNode w st1 (snd r1); st2 = merge st1 (fst r2);
        r3 = validateNode w st2 (snd r2); st3 = merge st2 (fst r3);
        r4 = briefNode w st3 (snd r3); st4 = merge st3 (fst r4)
    in ([st0, st1, st2, st3, st4], snd r4))"
  by (simp add: graph_def Let_def case_prod_beta)

text \<open>
  C2. Merging a node's partial update concatenates its errors to the accumulated ones
  (an update without the key leaves them as they are), so the list never shrinks. The
  five states of a run of the graph are the initial one and, after each of Scout,
  Brain, Validate and Brief in this order, the merge of the state before that node
  with the update that node returned from that state; the result of the run is the
  last of them. So each errors list is the previous one followed by exactly the errors
  the node returned, the final list is the initial one followed by the errors returned
  by the four nodes in order, and the length does not decrease.
\<close>

theorem errors_only_grow:
  "errors (merge st u) = errors st @ (case u_errors u of None \<Rightarrow> [] | Some v \<Rightarrow> v)
   \<and> length (errors st) \<le> length (errors (merge st u))
   \<and> length (fst (run_nodes (graph w) st0 s)) = 5
   \<and> fst (graph_invoke w st0 s) = fst (run_nodes (graph w) st0 s) ! 4
   \<and> (\<exists>e1 e2 e3 e4.
        errors (fst (run_nodes (graph w) st0 s) ! 1)
          = errors (fst (run_nodes (graph w) st0 s) ! 0) @ e1
      \<and> errors (fst (run_nodes (graph w) st0 s) ! 2)
          = errors (fst (run_nodes (graph w) st0 s) ! 1) @ e2
      \<and> errors (fst (run_nodes (graph w) st0 s) ! 3)
          = errors (fst (run_nodes (graph w) st0 s) ! 2) @ e3
      \<and> errors (fst (run_nodes (graph w) st0 s) ! 4)
          = errors (fst (run_nodes (graph w) st0 s) ! 3) @ e4)
   \<and> length (errors (fst (run_nodes (graph w) st0 s) ! 0))
       \<le> length (errors (fst (run_nodes (graph w) st0 s) ! 1))
   \<and> length (errors (fst (run_nodes (graph w) st0 s) ! 1))
       \<le> length (errors (fst (run_nodes (graph w) st0 s) ! 2))
   \<and> length (errors (fst (run_nodes (graph w) st0 s) ! 2))
       \<le> length (errors (fst (run_nodes (graph w) st0 s) ! 3))
   \<and> length (errors (fst (run_nodes (graph w) st0 s) ! 3))
       \<le> length (errors (fst (run_nodes (graph w) st0 s) ! 4))
   \<and> (let r1 = scoutNode w st0 s; st1 = merge st0 (fst r1);
           r2 = brainNode w st1 (snd r1); st2 = merge st1 (fst r2);
           r3 = validateNode w st2 (snd r2); st3 = merge st2 (fst r3);
           r4 = briefNode w st3 (snd r3); st4 = merge st3 (fst r4);
           returned = (\<lambda>r. case u_errors (fst r) of None \<Rightarrow> [] | Some v \<Rightarrow> v)
       in fst (run_nodes (graph w) st0 s) = [st0, st1, st2, st3, st4]
          \<and> graph_invoke w st0 s = (st4, snd r4)
          \<and> errors st1 = errors st0 @ returned r1
          \<and> errors st2 = errors st1 @ returned r2
          \<and> errors st3 = errors st2 @ returned r3
          \<and> errors st4 = errors st3 @ returned r4
          \<and> errors (fst (graph_invoke w st0 s))
              = errors st0 @ returned r1 @ returned r2 @ returned r3 @ returned r4)"
proof -
  let ?sts = "fst (run_nodes (graph w) st0 s)"
  have len: "length ?sts = 5" by (simp only: run_nodes_length) (simp add: graph_def)
  have srt: "sorted_wrt (\<lambda>a b. \<exists>e. errors b = errors a @ e) ?sts" by (rule run_nodes_sorted)
  have step: "\<exists>e. errors (?sts ! j) = errors (?sts ! i) @ e" if "i < j" "j < 5" for i j
    using sorted_wrt_nth_less[OF srt, of i j] that len by simp
  obtain e1 where e1: "errors (?sts ! 1) = errors (?sts ! 0) @ e1" using step[of 0 1] by auto
  obtain e2 where e2: "errors (?sts ! 2) = errors (?sts ! 1) @ e2" using step[of 1 2] by auto
  obtain e3 where e3: "errors (?sts ! 3) = errors (?sts ! 2) @ e3" using step[of 2 3] by auto
  obtain e4 where e4: "errors (?sts ! 4) = errors (?sts ! 3) @ e4" using step[of 3 4] by auto
  have "?sts \<noteq> []" using len by auto
  then have "last ?sts = ?sts ! 4" using len by (simp add: last_conv_nth)
  then have last: "fst (graph_invoke w st0 s) = ?sts ! 4"
    by (cases "run_nodes (graph w) st0 s") (simp add: graph_invoke_def)
  have m: "errors (merge st u) = errors st @ (case u_errors u of None \<Rightarrow> [] | Some v \<Rightarrow> v)"
    by (rule merge_errors)
  have m2: "length (errors st) \<le> length (errors (merge st u))" by (simp add: m)
  have ex: "\<exists>e1 e2 e3 e4.
        errors (?sts ! 1) = errors (?sts ! 0) @ e1
      \<and> errors (?sts ! 2) = errors (?sts ! 1) @ e2
      \<and> errors (?sts ! 3) = errors (?sts ! 2) @ e3
      \<and> errors (?sts ! 4) = errors (?sts ! 3) @ e4"
    using e1 e2 e3 e4 by blast
  have l1: "length (errors (?sts ! 0)) \<le> length (errors (?sts ! 1))" using arg_cong[OF e1, of length] by simp
  have l2: "length (errors (?sts ! 1)) \<le> length (errors (?sts ! 2))" using arg_cong[OF e2, of length] by simp
  have l3: "length (errors (?sts ! 2)) \<le> length (errors (?sts ! 3))" using arg_cong[OF e3, of length] by simp
  have l4: "length (errors (?sts ! 3)) \<le> length (errors (?sts ! 4))" using arg_cong[OF e4, of length] by simp
  have chain: "let r1 = scoutNode w st0 s; st1 = merge st0 (fst r1);
           r2 = brainNode w st1 (snd r1); st2 = merge st1 (fst r2);
           r3 = validateNode w st2 (snd r2); st3 = merge st2 (fst r3);
           r4 = briefNode w st3 (snd r3); st4 = merge st3 (fst r4);
           returned = (\<lambda>r. case u_errors (fst r) of None \<Rightarrow> [] | Some v \<Rightarrow> v)
       in fst (run_nodes (graph w) st0 s) = [st0, st1, st2, st3, st4]
          \<and> graph_invoke w st0 s = (st4, snd r4)
          \<and> errors st1 = errors st0 @ returned r1
          \<and> errors st2 = errors st1 @ returned r2
          \<and> errors st3 = errors st2 @ returned r3
          \<and> errors st4 = errors st3 @ returned r4
          \<and> errors (fst (graph_invoke w st0 s))
              = errors st0 @ returned r1 @ returned r2 @ returned r3 @ returned r4"
    unfolding graph_invoke_def run_nodes_graph
    by (simp add: Let_def merge_errors)
  from m m2 len last ex l1 l2 l3 l4 chain show ?thesis by blast
qed

lemma logs_ok_inner: "logs_ok (inner_entry em)"
  by (simp add: logs_ok_def)

lemma only_case_sum:
  "(\<And>e. only w P s0 (snd (f e))) \<Longrightarrow> (\<And>v. only w P s0 (snd (g v))) \<Longrightarrow>
   only w P s0 (snd (case r of Inl e \<Rightarrow> f e | Inr v \<Rightarrow> g v))"
  by (cases r) auto

lemma only_case_prod:
  "(\<And>a b. only w P s0 (snd (f a b))) \<Longrightarrow> only w P s0 (snd (case r of (a, b) \<Rightarrow> f a b))"
  by (cases r) auto

lemma only_ask_then:
  assumes "\<And>v s'. only w P s0 s' \<Longrightarrow> only w P s0 (snd (f v s'))" and "only w P s0 s"
  shows "only w P s0 (snd (case ask g s of (v, s') \<Rightarrow> f v s'))"
proof -
  obtain v s' where a: "ask g s = (v, s')" by (cases "ask g s")
  have "only w P s0 s'" using only_ask[OF assms(2), of g] a by simp
  then show ?thesis using assms(1) a by simp
qed

lemma trace_emit [simp]: "trace (emit e ev s) = trace s @ [Emit e ev]"
  by (simp add: emit_def)

lemma trace_logger [simp]: "trace (logger l m s) = trace s @ [Log l m]"
  by (simp add: logger_def)

lemma trace_updateTaskBlock [simp]: "trace (updateTaskBlock sid t st s) = trace s"
  by (simp add: updateTaskBlock_def split: option.splits)

lemma trace_initTaskBlocks [simp]: "trace (initTaskBlocks sid s) = trace s"
  by (simp add: initTaskBlocks_def)

lemma trace_ask [simp]: "trace (snd (ask f s)) = trace s"
  by (simp add: ask_def)

lemmas only_intros = only_await only_stmt only_total only_emit only_logger only_andThen
  only_ask only_ret only_lift only_searchRedditPainPoints only_scrapeRedditPosts
  only_cleanAndFilterPosts only_storeMessage only_writeReport only_flushAndSummarise
  only_extractPainPoints only_rankAndSelectProblem only_analyseCompetitorData
  only_generateOpportunityBrief only_updateTaskBlock only_initTaskBlocks
  only_verifyAllCompetitors only_fallback_scrape only_case_sum only_ask_then logs_ok_inner

lemma phase_blockI:
  "tr = Emit em (PhaseStart p) # mid @ (if c then [Emit em (PhaseComplete p)] else []) \<Longrightarrow>
   list_all (inner_entry em) mid \<Longrightarrow> phase_block em p c tr"
  by (auto simp: phase_block_def)

lemma scout_step:
  "\<forall>f\<in>set (scout_try w st). \<forall>l s. only w (inner_entry (emit_fn st)) s0 s \<longrightarrow>
      only w (inner_entry (emit_fn st)) s0 (snd (f l s))"
  unfolding scout_try_def by (auto intro!: only_intros)

lemma scoutNode_block:
  "\<exists>tr. trace (snd (scoutNode w st s)) = trace s @ tr \<and> phase_block (emit_fn st) Scout True tr"
proof -
  let ?em = "emit_fn st"
  let ?s1 = "emit ?em (PhaseStart Scout) s"
  let ?r = "run_steps (scout_try w st) \<lparr>sl_searchResults = [], sl_rawPosts = []\<rparr> ?s1"
  obtain err l s' where r: "?r = ((err, l), s')" by (cases ?r) auto
  have "only w (inner_entry ?em) ?s1 (snd ?r)"
    using scout_step[of w st ?s1] by (intro only_run_steps) (auto simp: only_refl)
  then obtain ys where ys: "trace s' = trace ?s1 @ ys" "list_all (inner_entry ?em) ys"
    using r by (auto simp: only_def)
  show ?thesis
  proof (cases err)
    case None
    have "trace (snd (scoutNode w st s)) =
          trace s @ Emit ?em (PhaseStart Scout) # ys @ [Emit ?em (PhaseComplete Scout)]"
      using r None ys by (simp add: scoutNode_def emit_def)
    then show ?thesis using ys(2)
      by (intro exI[of _ "Emit ?em (PhaseStart Scout) # ys @ [Emit ?em (PhaseComplete Scout)]"]
            conjI phase_blockI[of _ _ _ ys]) simp_all
  next
    case (Some e)
    have "trace (snd (scoutNode w st s)) =
          trace s @ Emit ?em (PhaseStart Scout) #
            (ys @ [Log Err (''Scout node error: '' @ e), Emit ?em (PhaseWarning Scout e)])
            @ [Emit ?em (PhaseComplete Scout)]"
      using r Some ys by (simp add: scoutNode_def emit_def logger_def)
    moreover have "list_all (inner_entry ?em)
          (ys @ [Log Err (''Scout node error: '' @ e), Emit ?em (PhaseWarning Scout e)])"
      using ys(2) by simp
    ultimately show ?thesis
      by (intro exI[of _ "Emit ?em (PhaseStart Scout) #
            (ys @ [Log Err (''Scout node error: '' @ e), Emit ?em (PhaseWarning Scout e)])
            @ [Emit ?em (PhaseComplete Scout)]"] conjI
            phase_blockI[of _ _ _
              "ys @ [Log Err (''Scout node error: '' @ e), Emit ?em (PhaseWarning Scout e)]"])
         simp_all
  qed
qed

lemma brain_step:
  "\<forall>f\<in>set (brain_try w st). \<forall>l s. only w (inner_entry (emit_fn st)) s0 s \<longrightarrow>
      only w (inner_entry (emit_fn st)) s0 (snd (f l s))"
  unfolding brain_try_def by (auto intro!: only_intros)

lemma validate_step:
  "\<forall>f\<in>set (validate_try w st). \<forall>l s. only w (inner_entry (emit_fn st)) s0 s \<longrightarrow>
      only w (inner_entry (emit_fn st)) s0 (snd (f l s))"
  unfolding validate_try_def by (auto intro!: only_intros)

lemma brief_step:
  "\<forall>f\<in>set (brief_try w st). \<forall>l s. only w (inner_entry (emit_fn st)) s0 s \<longrightarrow>
      only w (inner_entry (emit_fn st)) s0 (snd (f l s))"
  unfolding brief_try_def by (auto intro!: only_intros)

lemma brainNode_block:
  "\<exists>tr. trace (snd (brainNode w st s)) = trace s @ tr \<and> phase_block (emit_fn st) Brain True tr"
proof -
  let ?em = "emit_fn st"
  let ?s1 = "emit ?em (PhaseStart Brain) s"
  let ?r = "run_steps (brain_try w st) \<lparr>bl_painPoints = JArr [], bl_topProblem = JNull\<rparr> ?s1"
  obtain err l s' where r: "?r = ((err, l), s')" by (cases ?r) auto
  have "only w (inner_entry ?em) ?s1 (snd ?r)"
    using brain_step[of w st ?s1] by (intro only_run_steps) (auto simp: only_refl)
  then obtain ys where ys: "trace s' = trace ?s1 @ ys" "list_all (inner_entry ?em) ys"
    using r by (auto simp: only_def)
  show ?thesis
  proof (cases err)
    case None
    have "trace (snd (brainNode w st s)) =
          trace s @ Emit ?em (PhaseStart Brain) # ys @ [Emit ?em (PhaseComplete Brain)]"
      using r None ys by (simp add: brainNode_def)
    then show ?thesis using ys(2)
      by (intro exI[of _ "Emit ?em (PhaseStart Brain) # ys @ [Emit ?em (PhaseComplete Brain)]"]
            conjI phase_blockI[of _ _ _ ys]) simp_all
  next
    case (Some e)
    let ?mid = "ys @ [Log Err (''Brain node error: '' @ e), Emit ?em (PhaseWarning Brain e)]"
    have "trace (snd (brainNode w st s)) =
          trace s @ Emit ?em (PhaseStart Brain) # ?mid @ [Emit ?em (PhaseComplete Brain)]"
      using r Some ys by (simp add: brainNode_def)
    moreover have "list_all (inner_entry ?em) ?mid" using ys(2) by simp
    ultimately show ?thesis
      by (intro exI[of _ "Emit ?em (PhaseStart Brain) # ?mid @ [Emit ?em (PhaseComplete Brain)]"]
            conjI phase_blockI[of _ _ _ ?mid]) simp_all
  qed
qed

lemma validateNode_block:
  "\<exists>tr. trace (snd (validateNode w st s)) = trace s @ tr
        \<and> phase_block (emit_fn st) Validate True tr"
proof -
  let ?em = "emit_fn st"
  let ?s1 = "emit ?em (TaskUpdate verify_competitor_gaps T_running)
               (updateTaskBlock (sessionId st) verify_competitor_gaps T_running
                 (emit ?em (PhaseStart Validate) s))"
  let ?r = "run_steps (validate_try w st) \<lparr>vl_competitorResults = [], vl_gapAnalysis = JNull\<rparr> ?s1"
  let ?t = "Emit ?em (TaskUpdate verify_competitor_gaps T_running)"
  obtain err l s' where r: "?r = ((err, l), s')" by (cases ?r) auto
  have "only w (inner_entry ?em) ?s1 (snd ?r)"
    using validate_step[of w st ?s1] by (intro only_run_steps) (auto simp: only_refl)
  then obtain ys where ys: "trace s' = trace ?s1 @ ys" "list_all (inner_entry ?em) ys"
    using r by (auto simp: only_def)
  show ?thesis
  proof (cases err)
    case None
    let ?mid = "?t # ys"
    have "trace (snd (validateNode w st s)) =
          trace s @ Emit ?em (PhaseStart Validate) # ?mid @ [Emit ?em (PhaseComplete Validate)]"
      using r None ys by (simp add: validateNode_def)
    moreover have "list_all (inner_entry ?em) ?mid" using ys(2) by simp
    ultimately show ?thesis
      by (intro exI[of _ "Emit ?em (PhaseStart Validate) # ?mid
              @ [Emit ?em (PhaseComplete Validate)]"]
            conjI phase_blockI[of _ _ _ ?mid]) simp_all
  next
    case (Some e)
    let ?mid = "?t # ys @ [Log Err (''Validate node error: '' @ e),
                           Emit ?em (PhaseWarning Validate e)]"
    have "trace (snd (validateNode w st s)) =
          trace s @ Emit ?em (PhaseStart Validate) # ?mid @ [Emit ?em (PhaseComplete Validate)]"
      using r Some ys by (simp add: validateNode_def)
    moreover have "list_all (inner_entry ?em) ?mid" using ys(2) by simp
    ultimately show ?thesis
      by (intro exI[of _ "Emit ?em (PhaseStart Validate) # ?mid
              @ [Emit ?em (PhaseComplete Validate)]"]
            conjI phase_blockI[of _ _ _ ?mid]) simp_all
  qed
qed

lemma briefNode_block:
  "\<exists>tr. trace (snd (briefNode w st s)) = trace s @ tr
        \<and> phase_block (emit_fn st) Brief False tr"
proof -
  let ?em = "emit_fn st"
  let ?s1 = "emit ?em (TaskUpdate generate_opportunity_brief T_running)
               (updateTaskBlock (sessionId st) generate_opportunity_brief T_running
                 (emit ?em (PhaseStart Brief) s))"
  let ?r = "run_steps (brief_try w st) JNull ?s1"
  let ?t = "Emit ?em (TaskUpdate generate_opportunity_brief T_running)"
  obtain err l s' where r: "?r = ((err, l), s')" by (cases ?r) auto
  have "only w (inner_entry ?em) ?s1 (snd ?r)"
    using brief_step[of w st ?s1] by (intro only_run_steps) (auto simp: only_refl)
  then obtain ys where ys: "trace s' = trace ?s1 @ ys" "list_all (inner_entry ?em) ys"
    using r by (auto simp: only_def)
  show ?thesis
  proof (cases err)
    case None
    let ?mid = "?t # ys"
    have "trace (snd (briefNode w st s)) = trace s @ Emit ?em (PhaseStart Brief) # ?mid @ []"
      using r None ys by (simp add: briefNode_def)
    moreover have "list_all (inner_entry ?em) ?mid" using ys(2) by simp
    ultimately show ?thesis
      by (intro exI[of _ "Emit ?em (PhaseStart Brief) # ?mid @ []"]
            conjI phase_blockI[of _ _ _ ?mid]) simp_all
  next
    case (Some e)
    let ?mid = "?t # ys @ [Log Err (''Brief node error: '' @ e),
                           Emit ?em (PhaseWarning Brief e)]"
    have "trace (snd (briefNode w st s)) = trace s @ Emit ?em (PhaseStart Brief) # ?mid @ []"
      using r Some ys by (simp add: briefNode_def)
    moreover have "list_all (inner_entry ?em) ?mid" using ys(2) by simp
    ultimately show ?thesis
      by (intro exI[of _ "Emit ?em (PhaseStart Brief) # ?mid @ []"]
            conjI phase_blockI[of _ _ _ ?mid]) simp_all
  qed
qed

lemma events_of_append [simp]:
  "events_of em (xs @ ys) = events_of em xs @ events_of em ys"
  by (induction em xs rule: events_of.induct) auto

lemma phase_starts_append [simp]:
  "phase_starts (xs @ ys) = phase_starts xs @ phase_starts ys"
  by (induction xs rule: phase_starts.induct) auto

lemma phase_completes_append [simp]:
  "phase_completes (xs @ ys) = phase_completes xs @ phase_completes ys"
  by (induction xs rule: phase_completes.induct) auto

lemma inner_events:
  "list_all (inner_entry em) mid \<Longrightarrow> list_all inner_event (events_of em mid)"
  by (induction em mid rule: events_of.induct) auto

lemma inner_events_other:
  "list_all (inner_entry em) mid \<Longrightarrow> em' \<noteq> em \<Longrightarrow> events_of em' mid = []"
  by (induction em' mid rule: events_of.induct) auto

lemma inner_no_starts: "list_all inner_event evs \<Longrightarrow> phase_starts evs = []"
  by (induction evs rule: phase_starts.induct) auto

lemma inner_no_completes: "list_all inner_event evs \<Longrightarrow> phase_completes evs = []"
  by (induction evs rule: phase_completes.induct) auto

lemma inner_no_done: "list_all inner_event evs \<Longrightarrow> filter is_done evs = []"
  by (induction evs) (auto elim: inner_event.elims)

lemma inner_no_error: "list_all inner_event evs \<Longrightarrow> filter is_error evs = []"
  by (induction evs) (auto elim: inner_event.elims)

lemma added_append: "trace s' = trace s @ tr \<Longrightarrow> added s s' = tr"
  by (simp add: added_def)

lemma phase_block_events:
  assumes "phase_block em p c tr"
  shows "phase_starts (events_of em tr) = [p]"
    and "phase_completes (events_of em tr) = (if c then [p] else [])"
    and "filter is_done (events_of em tr) = []"
    and "filter is_error (events_of em tr) = []"
    and "hd (events_of em tr) = PhaseStart p"
    and "c \<Longrightarrow> last (events_of em tr) = PhaseComplete p"
    and "em' \<noteq> em \<Longrightarrow> events_of em' tr = []"
proof -
  from assms obtain mid where
    tr: "tr = Emit em (PhaseStart p) # mid @ (if c then [Emit em (PhaseComplete p)] else [])"
    and mid: "list_all (inner_entry em) mid"
    by (auto simp: phase_block_def)
  note i = inner_events[OF mid]
  show "phase_starts (events_of em tr) = [p]"
    using inner_no_starts[OF i] by (simp add: tr)
  show "phase_completes (events_of em tr) = (if c then [p] else [])"
    using inner_no_completes[OF i] by (simp add: tr)
  show "filter is_done (events_of em tr) = []"
    using inner_no_done[OF i] by (simp add: tr)
  show "filter is_error (events_of em tr) = []"
    using inner_no_error[OF i] by (simp add: tr)
  show "hd (events_of em tr) = PhaseStart p" by (simp add: tr)
  show "c \<Longrightarrow> last (events_of em tr) = PhaseComplete p" by (simp add: tr)
  show "em' \<noteq> em \<Longrightarrow> events_of em' tr = []"
    using inner_events_other[OF mid, of em'] by (simp add: tr)
qed

text \<open>
  C5 (the code departs from the claim). Scout, Brain and Validate emit
  \<open>phase_start\<close> first and \<open>phase_complete\<close> last, exactly once each, whatever fails
  inside. \<open>briefNode\<close> emits \<open>phase_start\<close> first and never emits a
  \<open>phase_complete\<close> event, of any phase, on any execution.
\<close>

theorem brief_never_emits_phase_complete:
  "hd (events_of (emit_fn st) (added s (snd (scoutNode w st s)))) = PhaseStart Scout
   \<and> last (events_of (emit_fn st) (added s (snd (scoutNode w st s)))) = PhaseComplete Scout
   \<and> phase_completes (events_of (emit_fn st) (added s (snd (scoutNode w st s)))) = [Scout]
   \<and> hd (events_of (emit_fn st) (added s (snd (brainNode w st s)))) = PhaseStart Brain
   \<and> last (events_of (emit_fn st) (added s (snd (brainNode w st s)))) = PhaseComplete Brain
   \<and> phase_completes (events_of (emit_fn st) (added s (snd (brainNode w st s)))) = [Brain]
   \<and> hd (events_of (emit_fn st) (added s (snd (validateNode w st s)))) = PhaseStart Validate
   \<and> last (events_of (emit_fn st) (added s (snd (validateNode w st s))))
       = PhaseComplete Validate
   \<and> phase_completes (events_of (emit_fn st) (added s (snd (validateNode w st s))))
       = [Validate]
   \<and> hd (events_of (emit_fn st) (added s (snd (briefNode w st s)))) = PhaseStart Brief
   \<and> phase_starts (events_of (emit_fn st) (added s (snd (briefNode w st s)))) = [Brief]
   \<and> phase_completes (events_of (emit_fn st) (added s (snd (briefNode w st s)))) = []"
proof -
  obtain t1 where t1: "trace (snd (scoutNode w st s)) = trace s @ t1"
      "phase_block (emit_fn st) Scout True t1" using scoutNode_block by blast
  obtain t2 where t2: "trace (snd (brainNode w st s)) = trace s @ t2"
      "phase_block (emit_fn st) Brain True t2" using brainNode_block by blast
  obtain t3 where t3: "trace (snd (validateNode w st s)) = trace s @ t3"
      "phase_block (emit_fn st) Validate True t3" using validateNode_block by blast
  obtain t4 where t4: "trace (snd (briefNode w st s)) = trace s @ t4"
      "phase_block (emit_fn st) Brief False t4" using briefNode_block by blast
  show ?thesis
    using phase_block_events[OF t1(2)] phase_block_events[OF t2(2)]
      phase_block_events[OF t3(2)] phase_block_events[OF t4(2)]
    by (simp add: added_append[OF t1(1)] added_append[OF t2(1)] added_append[OF t3(1)]
          added_append[OF t4(1)])
qed

lemma emit_fn_merge [simp]: "emit_fn (merge st u) = emit_fn st"
  by (simp add: merge_def)

lemma sessionId_merge [simp]: "sessionId (merge st u) = sessionId st"
  by (simp add: merge_def)

lemma niche_merge [simp]: "niche (merge st u) = niche st"
  by (simp add: merge_def)

text \<open>The history of a run of the graph: the four blocks.\<close>

lemma graph_invoke_trace:
  "\<exists>t1 t2 t3 t4.
     trace (snd (graph_invoke w st s)) = trace s @ t1 @ t2 @ t3 @ t4
     \<and> phase_block (emit_fn st) Scout True t1 \<and> phase_block (emit_fn st) Brain True t2
     \<and> phase_block (emit_fn st) Validate True t3 \<and> phase_block (emit_fn st) Brief False t4"
proof -
  obtain u1 s1 where n1: "scoutNode w st s = (u1, s1)" by (cases "scoutNode w st s")
  let ?st1 = "merge st u1"
  obtain u2 s2 where n2: "brainNode w ?st1 s1 = (u2, s2)" by (cases "brainNode w ?st1 s1")
  let ?st2 = "merge ?st1 u2"
  obtain u3 s3 where n3: "validateNode w ?st2 s2 = (u3, s3)" by (cases "validateNode w ?st2 s2")
  let ?st3 = "merge ?st2 u3"
  obtain u4 s4 where n4: "briefNode w ?st3 s3 = (u4, s4)" by (cases "briefNode w ?st3 s3")
  obtain t1 where t1: "trace s1 = trace s @ t1" "phase_block (emit_fn st) Scout True t1"
    using scoutNode_block[of w st s] n1 by auto
  obtain t2 where t2: "trace s2 = trace s1 @ t2" "phase_block (emit_fn st) Brain True t2"
    using brainNode_block[of w ?st1 s1] n2 by auto
  obtain t3 where t3: "trace s3 = trace s2 @ t3" "phase_block (emit_fn st) Validate True t3"
    using validateNode_block[of w ?st2 s2] n3 by auto
  obtain t4 where t4: "trace s4 = trace s3 @ t4" "phase_block (emit_fn st) Brief False t4"
    using briefNode_block[of w ?st3 s3] n4 by auto
  have "snd (graph_invoke w st s) = s4"
    using n1 n2 n3 n4 by (simp add: graph_invoke_def graph_def)
  then have "trace (snd (graph_invoke w st s)) = trace s @ t1 @ t2 @ t3 @ t4"
    using t1(1) t2(1) t3(1) t4(1) by simp
  then show ?thesis using t1(2) t2(2) t3(2) t4(2) by blast
qed

lemma registry_emit [simp]:
  "activeRuns (emit e ev s) = activeRuns s" "pending (emit e ev s) = pending s"
  by (simp_all add: emit_def)

lemma registry_logger [simp]:
  "activeRuns (logger l m s) = activeRuns s" "pending (logger l m s) = pending s"
  by (simp_all add: logger_def)

lemma registry_updateTaskBlock [simp]:
  "activeRuns (updateTaskBlock sid t st s) = activeRuns s"
  "pending (updateTaskBlock sid t st s) = pending s"
  by (simp_all add: updateTaskBlock_def split: option.splits)

lemma registry_ask [simp]:
  "activeRuns (snd (ask f s)) = activeRuns s" "pending (snd (ask f s)) = pending s"
  "tick (snd (ask f s)) = Suc (tick s)" "fst (ask f s) = f (tick s)"
  by (simp_all add: ask_def)

lemma only_registry: "only w P s0 s \<Longrightarrow> activeRuns s = activeRuns s0 \<and> pending s = pending s0"
  by (simp add: only_def)

lemma scoutNode_registry:
  "activeRuns (snd (scoutNode w st s)) = activeRuns s
   \<and> pending (snd (scoutNode w st s)) = pending s"
proof -
  let ?s1 = "emit (emit_fn st) (PhaseStart Scout) s"
  let ?r = "run_steps (scout_try w st) \<lparr>sl_searchResults = [], sl_rawPosts = []\<rparr> ?s1"
  obtain err l s' where r: "?r = ((err, l), s')" by (cases ?r) auto
  have "only w (inner_entry (emit_fn st)) ?s1 (snd ?r)"
    using scout_step[of w st ?s1] by (intro only_run_steps) (auto simp: only_refl)
  from only_registry[OF this] r show ?thesis
    by (cases err) (simp_all add: scoutNode_def)
qed

lemma brainNode_registry:
  "activeRuns (snd (brainNode w st s)) = activeRuns s
   \<and> pending (snd (brainNode w st s)) = pending s"
proof -
  let ?s1 = "emit (emit_fn st) (PhaseStart Brain) s"
  let ?r = "run_steps (brain_try w st) \<lparr>bl_painPoints = JArr [], bl_topProblem = JNull\<rparr> ?s1"
  obtain err l s' where r: "?r = ((err, l), s')" by (cases ?r) auto
  have "only w (inner_entry (emit_fn st)) ?s1 (snd ?r)"
    using brain_step[of w st ?s1] by (intro only_run_steps) (auto simp: only_refl)
  from only_registry[OF this] r show ?thesis
    by (cases err) (simp_all add: brainNode_def)
qed

lemma validateNode_registry:
  "activeRuns (snd (validateNode w st s)) = activeRuns s
   \<and> pending (snd (validateNode w st s)) = pending s"
proof -
  let ?s1 = "emit (emit_fn st) (TaskUpdate verify_competitor_gaps T_running)
               (updateTaskBlock (sessionId st) verify_competitor_gaps T_running
                 (emit (emit_fn st) (PhaseStart Validate) s))"
  let ?r = "run_steps (validate_try w st) \<lparr>vl_competitorResults = [], vl_gapAnalysis = JNull\<rparr> ?s1"
  obtain err l s' where r: "?r = ((err, l), s')" by (cases ?r) auto
  have "only w (inner_entry (emit_fn st)) ?s1 (snd ?r)"
    using validate_step[of w st ?s1] by (intro only_run_steps) (auto simp: only_refl)
  from only_registry[OF this] r show ?thesis
    by (cases err) (simp_all add: validateNode_def)
qed

lemma briefNode_registry:
  "activeRuns (snd (briefNode w st s)) = activeRuns s
   \<and> pending (snd (briefNode w st s)) = pending s"
proof -
  let ?s1 = "emit (emit_fn st) (TaskUpdate generate_opportunity_brief T_running)
               (updateTaskBlock (sessionId st) generate_opportunity_brief T_running
                 (emit (emit_fn st) (PhaseStart Brief) s))"
  let ?r = "run_steps (brief_try w st) JNull ?s1"
  obtain err l s' where r: "?r = ((err, l), s')" by (cases ?r) auto
  have "only w (inner_entry (emit_fn st)) ?s1 (snd ?r)"
    using brief_step[of w st ?s1] by (intro only_run_steps) (auto simp: only_refl)
  from only_registry[OF this] r show ?thesis
    by (cases err) (simp_all add: briefNode_def)
qed

lemma graph_invoke_registry:
  "activeRuns (snd (graph_invoke w st s)) = activeRuns s
   \<and> pending (snd (graph_invoke w st s)) = pending s"
proof -
  obtain u1 s1 where n1: "scoutNode w st s = (u1, s1)" by (cases "scoutNode w st s")
  let ?st1 = "merge st u1"
  obtain u2 s2 where n2: "brainNode w ?st1 s1 = (u2, s2)" by (cases "brainNode w ?st1 s1")
  let ?st2 = "merge ?st1 u2"
  obtain u3 s3 where n3: "validateNode w ?st2 s2 = (u3, s3)" by (cases "validateNode w ?st2 s2")
  let ?st3 = "merge ?st2 u3"
  obtain u4 s4 where n4: "briefNode w ?st3 s3 = (u4, s4)" by (cases "briefNode w ?st3 s3")
  have "snd (graph_invoke w st s) = s4"
    using n1 n2 n3 n4 by (simp add: graph_invoke_def graph_def)
  then show ?thesis
    using scoutNode_registry[of w st s] brainNode_registry[of w ?st1 s1]
      validateNode_registry[of w ?st2 s2] briefNode_registry[of w ?st3 s3] n1 n2 n3 n4
    by simp
qed

lemma logs_ok_boot: "logs_ok (boot_entry em)"
  by (simp add: logs_ok_def)

lemma only_bootstrap:
  "only w (boot_entry em) s0 s \<Longrightarrow> only w (boot_entry em) s0 (snd (runGraph_bootstrap w rid n em s))"
  unfolding runGraph_bootstrap_def Let_def
  by (intro only_andThen only_createSession only_createLearningSpace only_lift only_emit
        only_initTaskBlocks only_writeReport only_ret logs_ok_boot) simp_all

text \<open>The two ways through \<open>runGraph\<close>.\<close>

lemma runGraph_fatal:
  assumes "runGraph_bootstrap w rid n em (emit em (RunStart n) s) = (Inl e, sb)"
  shows "runGraph w rid n em s
         = (Inr (), snd (closeBrightData w (runGraph_catch rid em e sb)))"
  using assms
  by (cases "closeBrightData w (runGraph_catch rid em e sb)")
     (simp add: runGraph_def andThen_def)

lemma runGraph_ok:
  assumes "runGraph_bootstrap w rid n em (emit em (RunStart n) s) = (Inr (session, space), sb)"
      and "graph_invoke w (initial_state rid n session space em) sb = (finalState, sg)"
  shows "runGraph w rid n em s
         = (Inr (), snd (closeBrightData w (runGraph_finish w rid em session finalState sg)))"
  using assms
  by (cases "closeBrightData w (runGraph_finish w rid em session finalState sg)")
     (simp add: runGraph_def andThen_def total_def lift_def)

lemma trace_closeBrightData [simp]: "trace (snd (closeBrightData w s)) = trace s"
  by (simp add: closeBrightData_def)

lemma registry_closeBrightData [simp]:
  "activeRuns (snd (closeBrightData w s)) = activeRuns s"
  "pending (snd (closeBrightData w s)) = pending s"
  by (simp_all add: closeBrightData_def)

lemma runGraph_finish_trace:
  "trace (runGraph_finish w rid em session finalState sg)
   = trace sg @ [RegistrySet rid (Some (final_status finalState)),
                 Emit em (Done (Some session) (Some (length (errors finalState)))
                   (case run_startedAt (spread_run rid sg) of
                      None \<Rightarrow> None
                    | Some t0 \<Rightarrow> Some (int (Date_now w (tick sg)) - int t0)))]"
  by (simp add: runGraph_finish_def activeRuns_set_def ask_def spread_run_def
           split: option.splits)

lemma runGraph_finish_registry:
  "activeRuns (runGraph_finish w rid em session finalState sg)
   = (activeRuns sg)(rid \<mapsto> (spread_run rid sg)\<lparr>run_status := Some (final_status finalState),
                                                  run_sessionId := Some session\<rparr>)"
  by (simp add: runGraph_finish_def activeRuns_set_def ask_def)

lemma runGraph_catch_trace:
  "trace (runGraph_catch rid em e sb)
   = trace sb @ [Log Err (''Graph fatal error: '' @ e), Emit em (ErrorEvent e),
                 Emit em (Done None None None), RegistrySet rid (Some S_error)]"
  by (simp add: runGraph_catch_def activeRuns_set_def Let_def)

lemma runGraph_catch_registry:
  "activeRuns (runGraph_catch rid em e sb)
   = (activeRuns sb)(rid \<mapsto> (spread_run rid sb)\<lparr>run_status := Some S_error\<rparr>)"
  by (simp add: runGraph_catch_def activeRuns_set_def Let_def spread_run_def)

lemma boot_events_done: "list_all (boot_entry em) pre \<Longrightarrow> filter is_done (events_of em' pre) = []"
  by (induction em' pre rule: events_of.induct) (auto elim: boot_entry.elims)

lemma boot_events_error: "list_all (boot_entry em) pre \<Longrightarrow> filter is_error (events_of em' pre) = []"
  by (induction em' pre rule: events_of.induct) (auto elim: boot_entry.elims)

lemma boot_events_starts: "list_all (boot_entry em) pre \<Longrightarrow> phase_starts (events_of em' pre) = []"
  by (induction em' pre rule: events_of.induct) (auto elim: boot_entry.elims)

lemma boot_events_completes:
  "list_all (boot_entry em) pre \<Longrightarrow> phase_completes (events_of em' pre) = []"
  by (induction em' pre rule: events_of.induct) (auto elim: boot_entry.elims)

lemma boot_events_other: "list_all (boot_entry em) pre \<Longrightarrow> em' \<noteq> em \<Longrightarrow> events_of em' pre = []"
  by (induction em' pre rule: events_of.induct) (auto elim: boot_entry.elims)

lemma bootstrap_pre:
  assumes "runGraph_bootstrap w rid n em (emit em (RunStart n) s) = (r, sb)"
  shows "\<exists>pre. list_all (boot_entry em) pre \<and> trace sb = trace s @ Emit em (RunStart n) # pre
          \<and> activeRuns sb = activeRuns s \<and> pending sb = pending s"
proof -
  have "only w (boot_entry em) (emit em (RunStart n) s)
          (snd (runGraph_bootstrap w rid n em (emit em (RunStart n) s)))"
    by (rule only_bootstrap) (rule only_refl)
  then show ?thesis using assms by (auto simp: only_def)
qed

lemma runGraph_fatal_shape:
  assumes "runGraph_bootstrap w rid n em (emit em (RunStart n) s) = (Inl e, sb)"
  shows "fatal_shape em rid n e (added s (snd (runGraph w rid n em s)))"
    and "trace (snd (runGraph w rid n em s)) = trace s @ added s (snd (runGraph w rid n em s))"
    and "activeRuns (snd (runGraph w rid n em s))
         = (activeRuns s)(rid \<mapsto> (spread_run rid s)\<lparr>run_status := Some S_error\<rparr>)"
proof -
  from bootstrap_pre[OF assms] obtain pre where pre: "list_all (boot_entry em) pre"
    "trace sb = trace s @ Emit em (RunStart n) # pre" "activeRuns sb = activeRuns s" by blast
  have t: "trace (snd (runGraph w rid n em s)) = trace s @ Emit em (RunStart n) # pre @
                 [Log Err (''Graph fatal error: '' @ e), Emit em (ErrorEvent e),
                  Emit em (Done None None None), RegistrySet rid (Some S_error)]"
    by (simp add: runGraph_fatal[OF assms] runGraph_catch_trace pre(2))
  show "fatal_shape em rid n e (added s (snd (runGraph w rid n em s)))"
    unfolding fatal_shape_def added_append[OF t] using pre(1) by blast
  show "trace (snd (runGraph w rid n em s)) = trace s @ added s (snd (runGraph w rid n em s))"
    unfolding added_append[OF t] by (rule t)
  show "activeRuns (snd (runGraph w rid n em s))
         = (activeRuns s)(rid \<mapsto> (spread_run rid s)\<lparr>run_status := Some S_error\<rparr>)"
    by (simp add: runGraph_fatal[OF assms] runGraph_catch_registry pre(3) spread_run_def)
qed

lemma runGraph_ok_shape:
  assumes b: "runGraph_bootstrap w rid n em (emit em (RunStart n) s) = (Inr (session, space), sb)"
      and g: "graph_invoke w (initial_state rid n session space em) sb = (finalState, sg)"
  shows "ok_shape em rid n session finalState
           (case run_startedAt (spread_run rid s) of
              None \<Rightarrow> None
            | Some t0 \<Rightarrow> Some (int (Date_now w (tick sg)) - int t0))
           (added s (snd (runGraph w rid n em s)))"
    and "trace (snd (runGraph w rid n em s)) = trace s @ added s (snd (runGraph w rid n em s))"
    and "activeRuns (snd (runGraph w rid n em s))
         = (activeRuns s)(rid \<mapsto> (spread_run rid s)\<lparr>run_status := Some (final_status finalState),
                                                      run_sessionId := Some session\<rparr>)"
    and "trace (snd (runGraph w rid n em s)) = trace sg @
           [RegistrySet rid (Some (final_status finalState)),
            Emit em (Done (Some session) (Some (length (errors finalState)))
              (case run_startedAt (spread_run rid s) of
                 None \<Rightarrow> None
               | Some t0 \<Rightarrow> Some (int (Date_now w (tick sg)) - int t0)))]"
proof -
  let ?d = "case run_startedAt (spread_run rid s) of
              None \<Rightarrow> None
            | Some t0 \<Rightarrow> Some (int (Date_now w (tick sg)) - int t0)"
  from bootstrap_pre[OF b] obtain pre where pre: "list_all (boot_entry em) pre"
    "trace sb = trace s @ Emit em (RunStart n) # pre" "activeRuns sb = activeRuns s" by blast
  have em: "emit_fn (initial_state rid n session space em) = em"
    by (simp add: initial_state_def)
  from graph_invoke_trace[of w "initial_state rid n session space em" sb] g em
  obtain t1 t2 t3 t4 where bl: "trace sg = trace sb @ t1 @ t2 @ t3 @ t4"
     "phase_block em Scout True t1" "phase_block em Brain True t2"
     "phase_block em Validate True t3" "phase_block em Brief False t4" by auto
  have reg: "activeRuns sg = activeRuns s"
    using graph_invoke_registry[of w "initial_state rid n session space em" sb] g pre(3) by simp
  then have sp: "spread_run rid sg = spread_run rid s" by (simp add: spread_run_def)
  show t4': "trace (snd (runGraph w rid n em s)) = trace sg @
           [RegistrySet rid (Some (final_status finalState)),
            Emit em (Done (Some session) (Some (length (errors finalState))) ?d)]"
    by (simp add: runGraph_ok[OF b g] runGraph_finish_trace sp)
  have t: "trace (snd (runGraph w rid n em s)) = trace s @ Emit em (RunStart n) # pre @ t1 @ t2 @ t3 @ t4 @
                 [RegistrySet rid (Some (final_status finalState)),
                  Emit em (Done (Some session) (Some (length (errors finalState))) ?d)]"
    by (simp add: t4' bl(1) pre(2))
  show "ok_shape em rid n session finalState ?d (added s (snd (runGraph w rid n em s)))"
    unfolding ok_shape_def added_append[OF t] using pre(1) bl(2-5) by blast
  show "trace (snd (runGraph w rid n em s)) = trace s @ added s (snd (runGraph w rid n em s))"
    unfolding added_append[OF t] by (rule t)
  show "activeRuns (snd (runGraph w rid n em s))
         = (activeRuns s)(rid \<mapsto> (spread_run rid s)\<lparr>run_status := Some (final_status finalState),
                                                      run_sessionId := Some session\<rparr>)"
    by (simp add: runGraph_ok[OF b g] runGraph_finish_registry reg sp)
qed

lemma fatal_shape_events:
  assumes "fatal_shape em rid n e tr"
  shows "filter is_done (events_of em' tr) = (if em' = em then [Done None None None] else [])"
    and "filter is_error (events_of em' tr) = (if em' = em then [ErrorEvent e] else [])"
    and "last (events_of em tr) = Done None None None"
    and "drop (length (events_of em tr) - 2) (events_of em tr)
         = [ErrorEvent e, Done None None None]"
    and "hd (events_of em tr) = RunStart n"
    and "phase_starts (events_of em tr) = []"
    and "phase_completes (events_of em tr) = []"
proof -
  from assms obtain pre where pre: "list_all (boot_entry em) pre"
     and tr: "tr = Emit em (RunStart n) # pre @
                 [Log Err (''Graph fatal error: '' @ e), Emit em (ErrorEvent e),
                  Emit em (Done None None None), RegistrySet rid (Some S_error)]"
    by (auto simp: fatal_shape_def)
  show "filter is_done (events_of em' tr) = (if em' = em then [Done None None None] else [])"
    using boot_events_done[OF pre, of em'] by (cases "em' = em") (auto simp: tr)
  show "filter is_error (events_of em' tr) = (if em' = em then [ErrorEvent e] else [])"
    using boot_events_error[OF pre, of em'] by (cases "em' = em") (auto simp: tr)
  show "last (events_of em tr) = Done None None None" by (simp add: tr)
  show "drop (length (events_of em tr) - 2) (events_of em tr)
         = [ErrorEvent e, Done None None None]" by (simp add: tr)
  show "hd (events_of em tr) = RunStart n" by (simp add: tr)
  show "phase_starts (events_of em tr) = []"
    using boot_events_starts[OF pre, of em] by (simp add: tr)
  show "phase_completes (events_of em tr) = []"
    using boot_events_completes[OF pre, of em] by (simp add: tr)
qed

lemma phase_block_other:
  assumes "phase_block em p c tr"
  shows "filter is_done (events_of em' tr) = [] \<and> filter is_error (events_of em' tr) = []"
  using phase_block_events(3,4)[OF assms] phase_block_events(7)[OF assms, of em']
  by (cases "em' = em") auto

lemma ok_shape_events:
  assumes "ok_shape em rid n session finalState d tr"
  shows "filter is_done (events_of em' tr)
         = (if em' = em then [Done (Some session) (Some (length (errors finalState))) d] else [])"
    and "filter is_error (events_of em' tr) = []"
    and "last (events_of em tr) = Done (Some session) (Some (length (errors finalState))) d"
    and "hd (events_of em tr) = RunStart n"
    and "phase_starts (events_of em tr) = [Scout, Brain, Validate, Brief]"
    and "phase_completes (events_of em tr) = [Scout, Brain, Validate]"
proof -
  from assms obtain pre t1 t2 t3 t4 where pre: "list_all (boot_entry em) pre"
     and b1: "phase_block em Scout True t1" and b2: "phase_block em Brain True t2"
     and b3: "phase_block em Validate True t3" and b4: "phase_block em Brief False t4"
     and tr: "tr = Emit em (RunStart n) # pre @ t1 @ t2 @ t3 @ t4 @
                 [RegistrySet rid (Some (final_status finalState)),
                  Emit em (Done (Some session) (Some (length (errors finalState))) d)]"
    by (auto simp: ok_shape_def)
  show "filter is_done (events_of em' tr)
         = (if em' = em then [Done (Some session) (Some (length (errors finalState))) d] else [])"
    using boot_events_done[OF pre, of em'] phase_block_other[OF b1, of em']
      phase_block_other[OF b2, of em'] phase_block_other[OF b3, of em']
      phase_block_other[OF b4, of em']
    by (cases "em' = em") (auto simp: tr)
  show "filter is_error (events_of em' tr) = []"
    using boot_events_error[OF pre, of em'] phase_block_other[OF b1, of em']
      phase_block_other[OF b2, of em'] phase_block_other[OF b3, of em']
      phase_block_other[OF b4, of em']
    by (cases "em' = em") (auto simp: tr)
  show "last (events_of em tr) = Done (Some session) (Some (length (errors finalState))) d"
    by (simp add: tr)
  show "hd (events_of em tr) = RunStart n" by (simp add: tr)
  show "phase_starts (events_of em tr) = [Scout, Brain, Validate, Brief]"
    using boot_events_starts[OF pre, of em] phase_block_events(1)[OF b1]
      phase_block_events(1)[OF b2] phase_block_events(1)[OF b3] phase_block_events(1)[OF b4]
    by (simp add: tr)
  show "phase_completes (events_of em tr) = [Scout, Brain, Validate]"
    using boot_events_completes[OF pre, of em] phase_block_events(2)[OF b1]
      phase_block_events(2)[OF b2] phase_block_events(2)[OF b3] phase_block_events(2)[OF b4]
    by (simp add: tr)
qed

lemma run_task_eq: "run_task w t s = snd (runGraph w (t_runId t) (t_niche t) (t_emitter t) s)"
  by (cases "closeBrightData w
        (case fst (andThen (runGraph_bootstrap w (t_runId t) (t_niche t) (t_emitter t))
             (\<lambda>(session, space).
                andThen (total (graph_invoke w
                   (initial_state (t_runId t) (t_niche t) session space (t_emitter t))))
                  (\<lambda>finalState. lift (runGraph_finish w (t_runId t) (t_emitter t) session finalState)))
             (emit (t_emitter t) (RunStart (t_niche t)) s)) of
           Inr v \<Rightarrow> snd (andThen (runGraph_bootstrap w (t_runId t) (t_niche t) (t_emitter t))
             (\<lambda>(session, space).
                andThen (total (graph_invoke w
                   (initial_state (t_runId t) (t_niche t) session space (t_emitter t))))
                  (\<lambda>finalState. lift (runGraph_finish w (t_runId t) (t_emitter t) session finalState)))
             (emit (t_emitter t) (RunStart (t_niche t)) s))
         | Inl err \<Rightarrow> s)")
     (auto simp: run_task_def runGraph_def split: prod.splits sum.splits)

subsection \<open>Runs without the Reasoning Provider credential\<close>

lemma llm_emit [simp]: "llm_client (emit e ev s) = llm_client s"
  by (simp add: emit_def)

lemma llm_logger [simp]: "llm_client (logger l m s) = llm_client s"
  by (simp add: logger_def)

lemma llm_updateTaskBlock [simp]: "llm_client (updateTaskBlock sid t st s) = llm_client s"
  by (simp add: updateTaskBlock_def split: option.splits)

lemma only_llm: "only w P s0 s \<Longrightarrow> \<not> OPENAI_API_KEY w \<Longrightarrow> llm_client s = llm_client s0"
  by (simp add: only_def)

lemma scoutNode_llm:
  assumes "\<not> OPENAI_API_KEY w"
  shows "llm_client (snd (scoutNode w st s)) = llm_client s"
proof -
  let ?s1 = "emit (emit_fn st) (PhaseStart Scout) s"
  let ?r = "run_steps (scout_try w st) \<lparr>sl_searchResults = [], sl_rawPosts = []\<rparr> ?s1"
  obtain err l s' where r: "?r = ((err, l), s')" by (cases ?r) auto
  have "only w (inner_entry (emit_fn st)) ?s1 (snd ?r)"
    using scout_step[of w st ?s1] by (intro only_run_steps) (auto simp: only_refl)
  from only_llm[OF this assms] r show ?thesis
    by (cases err) (simp_all add: scoutNode_def)
qed

lemma validateNode_llm:
  assumes "\<not> OPENAI_API_KEY w"
  shows "llm_client (snd (validateNode w st s)) = llm_client s"
proof -
  let ?s1 = "emit (emit_fn st) (TaskUpdate verify_competitor_gaps T_running)
               (updateTaskBlock (sessionId st) verify_competitor_gaps T_running
                 (emit (emit_fn st) (PhaseStart Validate) s))"
  let ?r = "run_steps (validate_try w st) \<lparr>vl_competitorResults = [], vl_gapAnalysis = JNull\<rparr> ?s1"
  obtain err l s' where r: "?r = ((err, l), s')" by (cases ?r) auto
  have "only w (inner_entry (emit_fn st)) ?s1 (snd ?r)"
    using validate_step[of w st ?s1] by (intro only_run_steps) (auto simp: only_refl)
  from only_llm[OF this assms] r show ?thesis
    by (cases err) (simp_all add: validateNode_def)
qed

lemma callGPT_no_key:
  "\<not> OPENAI_API_KEY w \<Longrightarrow> \<not> llm_client s \<Longrightarrow>
   callGPT w s = (Inl ''OPENAI_API_KEY is not set in .env'', s)"
  by (simp add: callGPT_def andThen_def llm_getClient_def)

lemma brainNode_no_key:
  assumes "\<not> OPENAI_API_KEY w" and "\<not> llm_client s"
  shows "fst (brainNode w st s)
         = no_update\<lparr>u_painPoints := Some (JArr []), u_topProblem := Some JNull,
                     u_errors := Some [(Brain, ''OPENAI_API_KEY is not set in .env'')]\<rparr>"
    and "\<not> llm_client (snd (brainNode w st s))"
proof -
  let ?s1 = "emit (emit_fn st) (TaskUpdate extract_pain_points T_running)
               (updateTaskBlock (sessionId st) extract_pain_points T_running
                 (emit (emit_fn st) (PhaseStart Brain) s))"
  have c: "callGPT w ?s1 = (Inl ''OPENAI_API_KEY is not set in .env'', ?s1)"
    using assms by (intro callGPT_no_key) simp_all
  have r: "run_steps (brain_try w st) \<lparr>bl_painPoints = JArr [], bl_topProblem = JNull\<rparr>
             (emit (emit_fn st) (PhaseStart Brain) s)
           = ((Some ''OPENAI_API_KEY is not set in .env'',
               \<lparr>bl_painPoints = JArr [], bl_topProblem = JNull\<rparr>), ?s1)"
    by (simp add: brain_try_def stmt_def await_def extractPainPoints_def andThen_def c)
  show "fst (brainNode w st s)
         = no_update\<lparr>u_painPoints := Some (JArr []), u_topProblem := Some JNull,
                     u_errors := Some [(Brain, ''OPENAI_API_KEY is not set in .env'')]\<rparr>"
    by (simp add: brainNode_def r)
  show "\<not> llm_client (snd (brainNode w st s))"
    using assms(2) by (simp add: brainNode_def r)
qed

lemma briefNode_no_key:
  assumes "\<not> OPENAI_API_KEY w" and "\<not> llm_client s" and "has_slice (painPoints st)"
  shows "fst (briefNode w st s)
         = no_update\<lparr>u_opportunityBrief := Some JNull,
                     u_errors := Some [(Brief, ''OPENAI_API_KEY is not set in .env'')]\<rparr>"
proof -
  let ?s1 = "emit (emit_fn st) (TaskUpdate generate_opportunity_brief T_running)
               (updateTaskBlock (sessionId st) generate_opportunity_brief T_running
                 (emit (emit_fn st) (PhaseStart Brief) s))"
  have c: "callGPT w ?s1 = (Inl ''OPENAI_API_KEY is not set in .env'', ?s1)"
    using assms by (intro callGPT_no_key) simp_all
  have r: "run_steps (brief_try w st) JNull ?s1
           = ((Some ''OPENAI_API_KEY is not set in .env'', JNull), ?s1)"
    using assms(3)
    by (simp add: brief_try_def stmt_def await_def generateOpportunityBrief_def andThen_def c)
  show ?thesis by (simp add: briefNode_def r)
qed

text \<open>Without the credential (and without a client made earlier) the graph ends with
  the errors of Scout, if any, then the missing credential for Brain, one error for
  Validate, and the missing credential for Brief.\<close>

lemma graph_invoke_no_key:
  assumes "\<not> OPENAI_API_KEY w" and "\<not> llm_client s"
  shows "\<exists>ev. errors (fst (graph_invoke w st s))
         = errors st @ (case u_errors (fst (scoutNode w st s)) of None \<Rightarrow> [] | Some v \<Rightarrow> v)
           @ [(Brain, ''OPENAI_API_KEY is not set in .env'')] @ ev
           @ [(Brief, ''OPENAI_API_KEY is not set in .env'')]"
proof -
  let ?k = "''OPENAI_API_KEY is not set in .env''"
  obtain u1 s1 where n1: "scoutNode w st s = (u1, s1)" by (cases "scoutNode w st s")
  let ?st1 = "merge st u1"
  obtain u2 s2 where n2: "brainNode w ?st1 s1 = (u2, s2)" by (cases "brainNode w ?st1 s1")
  let ?st2 = "merge ?st1 u2"
  obtain u3 s3 where n3: "validateNode w ?st2 s2 = (u3, s3)" by (cases "validateNode w ?st2 s2")
  let ?st3 = "merge ?st2 u3"
  obtain u4 s4 where n4: "briefNode w ?st3 s3 = (u4, s4)" by (cases "briefNode w ?st3 s3")
  have l1: "\<not> llm_client s1" using scoutNode_llm[OF assms(1), of st s] assms(2) n1 by simp
  have u2: "u2 = no_update\<lparr>u_painPoints := Some (JArr []), u_topProblem := Some JNull,
                     u_errors := Some [(Brain, ?k)]\<rparr>"
    using brainNode_no_key(1)[OF assms(1) l1, of ?st1] n2 by simp
  have l2: "\<not> llm_client s2" using brainNode_no_key(2)[OF assms(1) l1, of ?st1] n2 by simp
  have l3: "\<not> llm_client s3" using validateNode_llm[OF assms(1), of ?st2 s2] l2 n3 by simp
  have "u_painPoints u3 = None"
    using n3 by (auto simp: validateNode_def no_update_def split: prod.splits option.splits)
  then have pp: "painPoints ?st3 = JArr []"
    by (simp add: merge_def reduce_def replace_reducer_def u2)
  have u4: "u4 = no_update\<lparr>u_opportunityBrief := Some JNull, u_errors := Some [(Brief, ?k)]\<rparr>"
    using briefNode_no_key[OF assms(1) l3, of ?st3] pp n4 by simp
  have "fst (graph_invoke w st s) = merge ?st3 u4"
    using n1 n2 n3 n4 by (simp add: graph_invoke_def graph_def)
  then have "errors (fst (graph_invoke w st s))
         = errors st @ (case u_errors (fst (scoutNode w st s)) of None \<Rightarrow> [] | Some v \<Rightarrow> v)
           @ [(Brain, ?k)] @ (case u_errors u3 of None \<Rightarrow> [] | Some v \<Rightarrow> v) @ [(Brief, ?k)]"
    by (simp add: merge_errors n1 u2 u4)
  then show ?thesis by (rule exI[of _ "case u_errors u3 of None \<Rightarrow> [] | Some v \<Rightarrow> v"])
qed

text \<open>
  C1. A run is the call of \<open>runGraph\<close> that \<open>startRun\<close> queues, with the handler
  \<open>startRun\<close> attaches (\<open>run_task\<close>). Whatever the outside answers to any call, and
  so also when every provider call fails, a run adds exactly one \<open>done\<close> event to its
  own emitter and none to any other. \<open>done\<close> is the last event of the run and
  \<open>run_start\<close> the first. Either no \<open>error\<close> event is emitted, or exactly one is
  and the run's events end with \<open>error\<close>, \<open>done\<close>. \<open>runGraph\<close> never rejects, so
  the handler of \<open>startRun\<close> emits nothing. \<open>startRun\<close> queues exactly one run, and
  the event loop runs a queued run once.
\<close>

theorem exactly_one_done:
  "length (filter is_done (events_of em (added s (run_task w t s))))
     = (if em = t_emitter t then 1 else 0)
   \<and> is_done (last (events_of (t_emitter t) (added s (run_task w t s))))
   \<and> hd (events_of (t_emitter t) (added s (run_task w t s))) = RunStart (t_niche t)
   \<and> (filter is_error (events_of (t_emitter t) (added s (run_task w t s))) = []
      \<or> (\<exists>e. filter is_error (events_of (t_emitter t) (added s (run_task w t s)))
                 = [ErrorEvent e]
             \<and> drop (length (events_of (t_emitter t) (added s (run_task w t s))) - 2)
                  (events_of (t_emitter t) (added s (run_task w t s)))
                 = [ErrorEvent e, Done None None None]))
   \<and> trace (run_task w t s) = trace s @ added s (run_task w t s)
   \<and> fst (runGraph w (t_runId t) (t_niche t) (t_emitter t) s) = Inr ()
   \<and> pending (snd (startRun w n s))
       = pending s @ [\<lparr>t_runId = uuidv4 w (tick s), t_niche = n, t_emitter = Suc (tick s)\<rparr>]
   \<and> event_loop w (s\<lparr>pending := [t]\<rparr>) = run_task w t (s\<lparr>pending := []\<rparr>)"
proof -
  let ?rid = "t_runId t" and ?n = "t_niche t" and ?em = "t_emitter t"
  let ?s' = "snd (runGraph w ?rid ?n ?em s)"
  let ?tr = "added s ?s'"
  have rt: "run_task w t s = ?s'" by (rule run_task_eq)
  have nr: "fst (runGraph w ?rid ?n ?em s) = Inr ()"
    by (simp add: runGraph_def split: prod.splits)
  have q: "pending (snd (startRun w n s))
       = pending s @ [\<lparr>t_runId = uuidv4 w (tick s), t_niche = n, t_emitter = Suc (tick s)\<rparr>]"
    by (simp add: startRun_def ask_def new_EventEmitter_def activeRuns_set_def Let_def)
  obtain r sb where b: "runGraph_bootstrap w ?rid ?n ?em (emit ?em (RunStart ?n) s) = (r, sb)"
    by (cases "runGraph_bootstrap w ?rid ?n ?em (emit ?em (RunStart ?n) s)")
  have main: "length (filter is_done (events_of em ?tr)) = (if em = ?em then 1 else 0)
   \<and> is_done (last (events_of ?em ?tr))
   \<and> hd (events_of ?em ?tr) = RunStart ?n
   \<and> (filter is_error (events_of ?em ?tr) = []
      \<or> (\<exists>e. filter is_error (events_of ?em ?tr) = [ErrorEvent e]
             \<and> drop (length (events_of ?em ?tr) - 2) (events_of ?em ?tr)
                 = [ErrorEvent e, Done None None None]))
   \<and> trace ?s' = trace s @ ?tr"
  proof (cases r)
    case (Inl e)
    note sh = runGraph_fatal_shape[OF b[unfolded Inl]]
    note ev = fatal_shape_events[OF sh(1)]
    have "filter is_error (events_of ?em ?tr) = [ErrorEvent e]
          \<and> drop (length (events_of ?em ?tr) - 2) (events_of ?em ?tr)
                 = [ErrorEvent e, Done None None None]"
      using ev(2)[of ?em] ev(4) by simp
    then have "\<exists>e. filter is_error (events_of ?em ?tr) = [ErrorEvent e]
          \<and> drop (length (events_of ?em ?tr) - 2) (events_of ?em ?tr)
                 = [ErrorEvent e, Done None None None]" by blast
    then show ?thesis using ev(1)[of em] ev(3) ev(5) sh(2) by simp
  next
    case (Inr p)
    obtain session space where p: "p = (session, space)" by (cases p)
    obtain finalState sg where
      g: "graph_invoke w (initial_state ?rid ?n session space ?em) sb = (finalState, sg)"
      by (cases "graph_invoke w (initial_state ?rid ?n session space ?em) sb")
    note sh = runGraph_ok_shape[OF b[unfolded Inr p] g]
    note ev = ok_shape_events[OF sh(1)]
    show ?thesis using ev(1)[of em] ev(2)[of ?em] ev(3) ev(4) sh(2) by simp
  qed
  have el: "event_loop w (s\<lparr>pending := [t]\<rparr>) = run_task w t (s\<lparr>pending := []\<rparr>)"
    by (simp add: event_loop_def)
  show ?thesis using main nr q el unfolding rt by blast
qed

text \<open>
  C3. When the bootstrap of a run has succeeded, the graph is run and returns
  \<open>finalState\<close> after the Brief phase. The run's registry entry then gets the status
  \<open>complete\<close> if the accumulated errors of \<open>finalState\<close> are empty and
  \<open>complete_with_warnings\<close> otherwise, by nothing but that list (and the session id);
  the rest of the entry and the other entries stay. The last two entries of the history
  are that write of the status and, after it, the \<open>done\<close> event, which carries the
  session, the number of errors and the time read after the graph minus the time the
  run was started.
\<close>

theorem terminal_status_from_errors:
  assumes "runGraph_bootstrap w rid n em (emit em (RunStart n) s) = (Inr (session, space), sb)"
  shows "let g = graph_invoke w (initial_state rid n session space em) sb;
             finalState = fst g; sg = snd g;
             status = (if errors finalState = [] then S_complete else S_complete_with_warnings)
         in activeRuns (snd (runGraph w rid n em s))
              = (activeRuns s)(rid \<mapsto> (spread_run rid s)\<lparr>run_status := Some status,
                                                          run_sessionId := Some session\<rparr>)
            \<and> (status = S_complete) = (errors finalState = [])
            \<and> trace (snd (runGraph w rid n em s))
              = trace sg @
                [RegistrySet rid (Some status),
                 Emit em (Done (Some session) (Some (length (errors finalState)))
                            (case run_startedAt (spread_run rid s) of
                               None \<Rightarrow> None
                             | Some t0 \<Rightarrow> Some (int (Date_now w (tick sg)) - int t0)))]
            \<and> (\<exists>tr. trace sg = trace s @ Emit em (RunStart n) # tr
                    \<and> phase_starts (events_of em tr) = [Scout, Brain, Validate, Brief])"
proof -
  let ?g = "graph_invoke w (initial_state rid n session space em) sb"
  have g: "?g = (fst ?g, snd ?g)" by simp
  note sh = runGraph_ok_shape[OF assms g]
  have fs: "final_status (fst ?g)
            = (if errors (fst ?g) = [] then S_complete else S_complete_with_warnings)"
    by (simp add: final_status_def)
  from bootstrap_pre[OF assms] obtain pre where pre: "list_all (boot_entry em) pre"
    "trace sb = trace s @ Emit em (RunStart n) # pre" by blast
  have em: "emit_fn (initial_state rid n session space em) = em"
    by (simp add: initial_state_def)
  from graph_invoke_trace[of w "initial_state rid n session space em" sb] em
  obtain t1 t2 t3 t4 where bl: "trace (snd ?g) = trace sb @ t1 @ t2 @ t3 @ t4"
     "phase_block em Scout True t1" "phase_block em Brain True t2"
     "phase_block em Validate True t3" "phase_block em Brief False t4" by auto
  have ph: "phase_starts (events_of em (pre @ t1 @ t2 @ t3 @ t4)) = [Scout, Brain, Validate, Brief]"
    using boot_events_starts[OF pre(1), of em] phase_block_events(1)[OF bl(2)]
      phase_block_events(1)[OF bl(3)] phase_block_events(1)[OF bl(4)]
      phase_block_events(1)[OF bl(5)]
    by simp
  have tr: "\<exists>tr. trace (snd ?g) = trace s @ Emit em (RunStart n) # tr
                    \<and> phase_starts (events_of em tr) = [Scout, Brain, Validate, Brief]"
    using ph bl(1) pre(2) by (intro exI[of _ "pre @ t1 @ t2 @ t3 @ t4"]) simp
  show ?thesis
    unfolding Let_def using sh(3) sh(4) tr by (simp add: fs)
qed

lemma no_openai_world_fields:
  "OPENAI_API_KEY no_openai_world = False"
  "ACONTEXT_API_KEY no_openai_world = True"
  "uuidv4 no_openai_world = (\<lambda>t. ''run-'' @ replicate t CHR ''x'')"
  "Date_now no_openai_world = (\<lambda>t. 1000 + t)"
  "sessions_create no_openai_world = (\<lambda>t. Inr ''session-1'')"
  "sessions_storeMessage no_openai_world = (\<lambda>t. Inr ())"
  "learningSpaces_create no_openai_world = (\<lambda>t. Inr ''space-1'')"
  "learningSpaces_learn no_openai_world = (\<lambda>t. Inr ())"
  by (simp_all add: no_openai_world_def calm_world_def)

lemmas boot_defs = runGraph_bootstrap_def createSession_def createLearningSpace_def
  writeReport_def storeMessage_def andThen_def ret_def lift_def ask_def acontext_getClient_def
  emit_def logger_def initTaskBlocks_def Let_def

lemma no_openai_startRun:
  "startRun no_openai_world designers fresh_sys
   = (Inr ''run-'',
      \<lparr>tick = 3,
       activeRuns = [''run-'' \<mapsto> \<lparr>run_emitter = Some 1, run_status = Some S_running,
                                  run_niche = Some designers, run_startedAt = Some 1002,
                                  run_sessionId = None\<rparr>],
       reportStore = Map.empty, taskState = Map.empty, blocksHeap = Map.empty,
       llm_client = False, acontext_client = False,
       pending = [\<lparr>t_runId = ''run-'', t_niche = designers, t_emitter = 1\<rparr>],
       trace = [RegistrySet ''run-'' (Some S_running)]\<rparr>)"
  by (simp add: startRun_def ask_def new_EventEmitter_def activeRuns_set_def Let_def
        fresh_sys_def no_openai_world_fields numeral_3_eq_3)

lemma no_openai_bootstrap:
  "fst (runGraph_bootstrap no_openai_world ''run-'' designers 1
          (emit 1 (RunStart designers) (snd (startRun no_openai_world designers fresh_sys))))
   = Inr (''session-1'', Some ''space-1'')"
  by (simp add: no_openai_startRun boot_defs no_openai_world_fields)

lemma no_openai_bootstrap_llm:
  "\<not> llm_client (snd (runGraph_bootstrap no_openai_world ''run-'' designers 1
          (emit 1 (RunStart designers) (snd (startRun no_openai_world designers fresh_sys)))))"
proof -
  let ?s = "emit 1 (RunStart designers) (snd (startRun no_openai_world designers fresh_sys))"
  have "only no_openai_world (boot_entry 1) ?s
          (snd (runGraph_bootstrap no_openai_world ''run-'' designers 1 ?s))"
    by (rule only_bootstrap) (rule only_refl)
  from only_llm[OF this] show ?thesis
    by (simp add: no_openai_world_fields no_openai_startRun)
qed

text \<open>Witness for C3: the run that \<open>startRun\<close> starts for the niche "freelance
  designers" in the world without the Reasoning Provider credential ends
  \<open>complete_with_warnings\<close>, and \<open>done\<close> is the last entry of the history.\<close>

theorem terminal_status_from_errors_witness:
  "fst (runGraph_bootstrap no_openai_world ''run-'' designers 1
          (emit 1 (RunStart designers) (snd (startRun no_openai_world designers fresh_sys))))
     = Inr (''session-1'', Some ''space-1'')
   \<and> getActiveRun ''run-''
        (snd (runGraph no_openai_world ''run-'' designers 1
               (snd (startRun no_openai_world designers fresh_sys))))
     = Some \<lparr>run_emitter = Some 1, run_status = Some S_complete_with_warnings,
             run_niche = Some designers, run_startedAt = Some 1002,
             run_sessionId = Some ''session-1''\<rparr>
   \<and> is_done (last (events_of 1 (trace
          (snd (runGraph no_openai_world ''run-'' designers 1
                 (snd (startRun no_openai_world designers fresh_sys)))))))"
proof -
  let ?w = no_openai_world
  let ?s = "snd (startRun ?w designers fresh_sys)"
  let ?b = "runGraph_bootstrap ?w ''run-'' designers 1 (emit 1 (RunStart designers) ?s)"
  let ?g = "graph_invoke ?w
       (initial_state ''run-'' designers ''session-1'' (Some ''space-1'') 1) (snd ?b)"
  have b: "?b = (Inr (''session-1'', Some ''space-1''), snd ?b)"
    using no_openai_bootstrap by (cases ?b) simp
  have k: "\<not> OPENAI_API_KEY ?w" by (simp add: no_openai_world_fields)
  from graph_invoke_no_key[OF k no_openai_bootstrap_llm,
         of "initial_state ''run-'' designers ''session-1'' (Some ''space-1'') 1"]
  obtain pre ev where "errors (fst ?g)
      = pre @ [(Brain, ''OPENAI_API_KEY is not set in .env'')] @ ev
        @ [(Brief, ''OPENAI_API_KEY is not set in .env'')]"
    by (metis append.assoc)
  then have e: "errors (fst ?g) \<noteq> []" by simp
  have sp: "spread_run ''run-'' ?s
            = \<lparr>run_emitter = Some 1, run_status = Some S_running,
               run_niche = Some designers, run_startedAt = Some 1002, run_sessionId = None\<rparr>"
    by (simp add: no_openai_startRun spread_run_def)
  from terminal_status_from_errors[OF b] e sp no_openai_bootstrap
  show ?thesis by (simp add: Let_def getActiveRun_def)
qed

subsection \<open>The clock of answers never goes back\<close>

lemma tick_emit [simp]: "tick (emit e ev s) = tick s"
  by (simp add: emit_def)

lemma tick_logger [simp]: "tick (logger l m s) = tick s"
  by (simp add: logger_def)

lemma tick_updateTaskBlock [simp]: "tick (updateTaskBlock sid t st s) = tick s"
  by (simp add: updateTaskBlock_def split: option.splits)












subsection \<open>The start endpoint\<close>



lemma startRun_result:
  "startRun w n s
   = (Inr (uuidv4 w (tick s)),
      s\<lparr>tick := tick s + 3,
        activeRuns := (activeRuns s)(uuidv4 w (tick s) \<mapsto>
           \<lparr>run_emitter = Some (Suc (tick s)), run_status = Some S_running,
            run_niche = Some n, run_startedAt = Some (Date_now w (tick s + 2)),
            run_sessionId = None\<rparr>),
        trace := trace s @ [RegistrySet (uuidv4 w (tick s)) (Some S_running)],
        pending := pending s @
           [\<lparr>t_runId = uuidv4 w (tick s), t_niche = n, t_emitter = Suc (tick s)\<rparr>]\<rparr>)"
  by (simp add: startRun_def ask_def new_EventEmitter_def activeRuns_set_def Let_def
        numeral_3_eq_3)








subsection \<open>The report announced by Brief\<close>

lemma run_steps_append:
  "run_steps (fs @ gs) l s =
   (case run_steps fs l s of
      ((Some e, l'), s') \<Rightarrow> ((Some e, l'), s')
    | ((None, l'), s') \<Rightarrow> run_steps gs l' s')"
proof (induction fs arbitrary: l s)
  case Nil
  show ?case by simp
next
  case (Cons f fs)
  obtain err l' s' where r: "f l s = ((err, l'), s')" by (cases "f l s") auto
  show ?case using Cons[of l' s'] r by (cases err) simp_all
qed

lemma logs_ok_quiet: "logs_ok (quiet_entry em)"
  by (simp add: logs_ok_def)

lemma quiet_no_report:
  "list_all (quiet_entry em) tr \<Longrightarrow> filter is_report_ready (events_of em' tr) = []"
  by (induction em' tr rule: events_of.induct) auto

lemma brief_prefix_step:
  "\<forall>f\<in>set (butlast (brief_try w st)). \<forall>l s. only w (quiet_entry (emit_fn st)) s0 s \<longrightarrow>
      only w (quiet_entry (emit_fn st)) s0 (snd (f l s))"
  unfolding brief_try_def
  by (auto intro!: only_await only_stmt only_emit only_generateOpportunityBrief
        only_updateTaskBlock only_flushAndSummarise only_ask_then only_writeReport
        only_storeMessage logs_ok_quiet)

lemma brief_try_last:
  "brief_try w st = butlast (brief_try w st) @
     [stmt (\<lambda>l s. emit (emit_fn st)
               (ReportReady (map_option (serialise s) (readReport (sessionId st) s))
                  (map (\<lambda>c. (cr_name c, cr_screenshot c)) (competitorResults st))) s)]"
  by (simp add: brief_try_def)

lemma deref_emit [simp]: "deref (emit e ev s) = deref s"
  by (rule ext) (simp add: deref_def emit_def split: blocks_ref.splits)

lemma serialise_emit [simp]: "serialise (emit e ev s) = serialise s"
  by (rule ext) (simp add: serialise_def)

lemma readReport_emit [simp]: "readReport sid (emit e ev s) = readReport sid s"
  by (simp add: readReport_def emit_def)


text \<open>What \<open>briefNode\<close> adds to the history: without an error, entries other than
  \<open>report_ready\<close> and then the \<open>report_ready\<close> event, whose payload is what the store
  holds then; with an error, no \<open>report_ready\<close>.\<close>

lemma briefNode_report:
  "(\<exists>ys l. u_errors (fst (briefNode w st s)) = Some []
        \<and> list_all (quiet_entry (emit_fn st)) ys
        \<and> trace (snd (briefNode w st s)) = trace s @ Emit (emit_fn st) (PhaseStart Brief) # ys @
            [Emit (emit_fn st)
               (ReportReady (map_option (serialise (snd (briefNode w st s)))
                                (readReport (sessionId st) (snd (briefNode w st s))))
                  (map (\<lambda>c. (cr_name c, cr_screenshot c)) (competitorResults st)))])
   \<or> (\<exists>ys e. u_errors (fst (briefNode w st s)) = Some [(Brief, e)]
        \<and> list_all (quiet_entry (emit_fn st)) ys
        \<and> trace (snd (briefNode w st s)) = trace s @ Emit (emit_fn st) (PhaseStart Brief) # ys)"
proof -
  let ?em = "emit_fn st"
  let ?s1 = "emit ?em (TaskUpdate generate_opportunity_brief T_running)
               (updateTaskBlock (sessionId st) generate_opportunity_brief T_running
                 (emit ?em (PhaseStart Brief) s))"
  let ?t = "Emit ?em (TaskUpdate generate_opportunity_brief T_running)"
  let ?pre = "butlast (brief_try w st)"
  let ?shots = "map (\<lambda>c. (cr_name c, cr_screenshot c)) (competitorResults st)"
  obtain err l s5 where r: "run_steps ?pre JNull ?s1 = ((err, l), s5)"
    by (cases "run_steps ?pre JNull ?s1") auto
  have "only w (quiet_entry ?em) ?s1 (snd (run_steps ?pre JNull ?s1))"
    using brief_prefix_step[of w st ?s1] by (intro only_run_steps) (auto simp: only_refl)
  then obtain ys where ys: "trace s5 = trace ?s1 @ ys" "list_all (quiet_entry ?em) ys"
    using r by (auto simp: only_def)
  have t1: "trace ?s1 = trace s @ [Emit ?em (PhaseStart Brief), ?t]" by simp
  show ?thesis
  proof (cases err)
    case None
    let ?rr = "ReportReady (map_option (serialise s5) (readReport (sessionId st) s5)) ?shots"
    have full: "run_steps (brief_try w st) JNull ?s1 = ((None, l), emit ?em ?rr s5)"
      by (subst brief_try_last) (simp add: run_steps_append r None stmt_def)
    have s': "snd (briefNode w st s) = emit ?em ?rr s5"
      and u: "u_errors (fst (briefNode w st s)) = Some []"
      by (simp_all add: briefNode_def full no_update_def)
    have "trace (snd (briefNode w st s)) = trace s @ Emit ?em (PhaseStart Brief) # (?t # ys) @
            [Emit ?em (ReportReady (map_option (serialise (snd (briefNode w st s)))
                                (readReport (sessionId st) (snd (briefNode w st s)))) ?shots)]"
      by (simp add: s' ys(1) t1)
    moreover have "list_all (quiet_entry ?em) (?t # ys)" using ys(2) by simp
    ultimately show ?thesis using u by blast
  next
    case (Some e)
    have full: "run_steps (brief_try w st) JNull ?s1 = ((Some e, l), s5)"
      by (subst brief_try_last) (simp add: run_steps_append r Some)
    let ?mid = "?t # ys @ [Log Err (''Brief node error: '' @ e), Emit ?em (PhaseWarning Brief e)]"
    have u: "u_errors (fst (briefNode w st s)) = Some [(Brief, e)]"
      by (simp add: briefNode_def full no_update_def)
    have "trace (snd (briefNode w st s)) = trace s @ Emit ?em (PhaseStart Brief) # ?mid"
      by (simp add: briefNode_def full ys(1) t1)
    moreover have "list_all (quiet_entry ?em) ?mid" using ys(2) by simp
    ultimately show ?thesis using u by blast
  qed
qed


text \<open>
  C9. \<open>briefNode\<close> emits \<open>report_ready\<close> at most once, as its last action and only
  when nothing in it has failed; the report the event carries is the one \<open>readReport\<close>
  returns for the session in the state \<open>briefNode\<close> leaves, that is, right after the
  event: between reading the store for the payload and that retrieval there is no
  write to the store or to the task blocks the report refers to. When \<open>briefNode\<close>
  fails, it emits no \<open>report_ready\<close>.
\<close>

theorem report_ready_carries_stored_report:
  "(u_errors (fst (briefNode w st s)) = Some []
      \<and> last (trace (snd (briefNode w st s)))
          = Emit (emit_fn st)
              (ReportReady (map_option (serialise (snd (briefNode w st s)))
                               (readReport (sessionId st) (snd (briefNode w st s))))
                 (map (\<lambda>c. (cr_name c, cr_screenshot c)) (competitorResults st)))
      \<and> filter is_report_ready (events_of (emit_fn st) (added s (snd (briefNode w st s))))
          = [ReportReady (map_option (serialise (snd (briefNode w st s)))
                               (readReport (sessionId st) (snd (briefNode w st s))))
                 (map (\<lambda>c. (cr_name c, cr_screenshot c)) (competitorResults st))])
   \<or> (\<exists>e. u_errors (fst (briefNode w st s)) = Some [(Brief, e)]
          \<and> filter is_report_ready (events_of (emit_fn st) (added s (snd (briefNode w st s))))
              = [])"
proof -
  let ?em = "emit_fn st"
  let ?s' = "snd (briefNode w st s)"
  let ?rr = "ReportReady (map_option (serialise ?s') (readReport (sessionId st) ?s'))
               (map (\<lambda>c. (cr_name c, cr_screenshot c)) (competitorResults st))"
  from briefNode_report[of w st s] show ?thesis
  proof
    assume "\<exists>ys l. u_errors (fst (briefNode w st s)) = Some []
        \<and> list_all (quiet_entry ?em) ys
        \<and> trace ?s' = trace s @ Emit ?em (PhaseStart Brief) # ys @ [Emit ?em ?rr]"
    then obtain ys where u: "u_errors (fst (briefNode w st s)) = Some []"
      and q: "list_all (quiet_entry ?em) ys"
      and t: "trace ?s' = trace s @ Emit ?em (PhaseStart Brief) # ys @ [Emit ?em ?rr]"
      by blast
    have l: "last (trace ?s') = Emit ?em ?rr" by (simp add: t)
    have "added s ?s' = Emit ?em (PhaseStart Brief) # ys @ [Emit ?em ?rr]"
      using t by (simp add: added_append)
    then have "filter is_report_ready (events_of ?em (added s ?s')) = [?rr]"
      using quiet_no_report[OF q, of ?em] by simp
    with u l show ?thesis by blast
  next
    assume "\<exists>ys e. u_errors (fst (briefNode w st s)) = Some [(Brief, e)]
        \<and> list_all (quiet_entry ?em) ys
        \<and> trace ?s' = trace s @ Emit ?em (PhaseStart Brief) # ys"
    then obtain ys e where u: "u_errors (fst (briefNode w st s)) = Some [(Brief, e)]"
      and q: "list_all (quiet_entry ?em) ys"
      and t: "trace ?s' = trace s @ Emit ?em (PhaseStart Brief) # ys"
      by blast
    have "added s ?s' = Emit ?em (PhaseStart Brief) # ys"
      using t by (simp add: added_append)
    then have "filter is_report_ready (events_of ?em (added s ?s')) = []"
      using quiet_no_report[OF q, of ?em] by simp
    with u show ?thesis by blast
  qed
qed

lemma calm_briefNode:
  "u_errors (fst (briefNode calm_world
       (initial_state ''run-'' designers ''session-1'' None 1) fresh_sys)) = Some []"
  by (simp add: briefNode_def brief_try_def stmt_def await_def generateOpportunityBrief_def
       callGPT_def llm_getClient_def andThen_def ask_def ret_def safeJsonParse_def
       flushAndSummarise_def acontext_getClient_def writeReport_def storeMessage_def
       emit_def logger_def updateTaskBlock_def getTaskBlocks_def Let_def
       initial_state_def fresh_sys_def calm_world_def no_update_def degraded_brief_def
       empty_report_def spread_def or_else_def readReport_def serialise_def deref_def)

text \<open>Witness for C9: in the calm world \<open>briefNode\<close> succeeds and announces the report
  that \<open>readReport\<close> returns afterwards.\<close>

theorem report_ready_carries_stored_report_witness:
  "u_errors (fst (briefNode calm_world
       (initial_state ''run-'' designers ''session-1'' None 1) fresh_sys)) = Some []
   \<and> filter is_report_ready (events_of 1 (added fresh_sys
        (snd (briefNode calm_world
               (initial_state ''run-'' designers ''session-1'' None 1) fresh_sys))))
     = [ReportReady
          (map_option
             (serialise (snd (briefNode calm_world
                (initial_state ''run-'' designers ''session-1'' None 1) fresh_sys)))
             (readReport ''session-1'' (snd (briefNode calm_world
                (initial_state ''run-'' designers ''session-1'' None 1) fresh_sys))))
          []]"
proof -
  let ?st = "initial_state ''run-'' designers ''session-1'' None 1"
  have i: "emit_fn ?st = 1" "sessionId ?st = ''session-1''" "competitorResults ?st = []"
    by (simp_all add: initial_state_def)
  let ?b = "briefNode calm_world ?st fresh_sys"
  from report_ready_carries_stored_report[of calm_world ?st fresh_sys] calm_briefNode
  have "filter is_report_ready (events_of (emit_fn ?st) (added fresh_sys (snd ?b)))
          = [ReportReady (map_option (serialise (snd ?b)) (readReport (sessionId ?st) (snd ?b)))
               (map (\<lambda>c. (cr_name c, cr_screenshot c)) (competitorResults ?st))]"
    by auto
  then have "filter is_report_ready (events_of 1 (added fresh_sys (snd ?b)))
          = [ReportReady (map_option (serialise (snd ?b)) (readReport ''session-1'' (snd ?b)))
               []]"
    by (simp only: i list.map)
  with calm_briefNode show ?thesis by blast
qed

subsection \<open>A run without the Reasoning Provider credential\<close>

lemma brainNode_no_key_trace:
  assumes "\<not> OPENAI_API_KEY w" and "\<not> llm_client s"
  shows "added s (snd (brainNode w st s))
         = [Emit (emit_fn st) (PhaseStart Brain),
            Emit (emit_fn st) (TaskUpdate extract_pain_points T_running),
            Log Err (''Brain node error: '' @ ''OPENAI_API_KEY is not set in .env''),
            Emit (emit_fn st) (PhaseWarning Brain ''OPENAI_API_KEY is not set in .env''),
            Emit (emit_fn st) (PhaseComplete Brain)]"
proof -
  let ?s1 = "emit (emit_fn st) (TaskUpdate extract_pain_points T_running)
               (updateTaskBlock (sessionId st) extract_pain_points T_running
                 (emit (emit_fn st) (PhaseStart Brain) s))"
  have c: "callGPT w ?s1 = (Inl ''OPENAI_API_KEY is not set in .env'', ?s1)"
    using assms by (intro callGPT_no_key) simp_all
  have r: "run_steps (brain_try w st) \<lparr>bl_painPoints = JArr [], bl_topProblem = JNull\<rparr>
             (emit (emit_fn st) (PhaseStart Brain) s)
           = ((Some ''OPENAI_API_KEY is not set in .env'',
               \<lparr>bl_painPoints = JArr [], bl_topProblem = JNull\<rparr>), ?s1)"
    by (simp add: brain_try_def stmt_def await_def extractPainPoints_def andThen_def c)
  show ?thesis
    by (rule added_append) (simp add: brainNode_def r)
qed

lemma bootstrap_llm:
  assumes "\<not> OPENAI_API_KEY w" and "\<not> llm_client s"
  shows "\<not> llm_client (snd (runGraph_bootstrap w rid n em (emit em (RunStart n) s)))"
proof -
  have "only w (boot_entry em) (emit em (RunStart n) s)
          (snd (runGraph_bootstrap w rid n em (emit em (RunStart n) s)))"
    by (rule only_bootstrap) (rule only_refl)
  from only_llm[OF this assms(1)] assms(2) show ?thesis by simp
qed

text \<open>
  C6 (amended). When the Reasoning Provider credential is absent (and no client was
  made while it was present), a run whose Memory Store bootstrap succeeds does not
  end with the status \<open>error\<close>: it emits no \<open>error\<close> event, starts all four phases,
  and ends \<open>complete_with_warnings\<close>. The missing credential surfaces in the phases
  that need the provider: \<open>brainNode\<close> catches it, emits \<open>phase_warning\<close> with its
  message and \<open>phase_complete\<close>, and the accumulated errors of the final state hold
  it for Brain and for Brief. Starting the run does not fail: \<open>startRun\<close> returns
  the identifier.
\<close>

theorem missing_llm_key_degrades_phases:
  assumes "\<not> OPENAI_API_KEY w" and "\<not> llm_client s"
      and "runGraph_bootstrap w rid n em (emit em (RunStart n) s) = (Inr (session, space), sb)"
  shows "activeRuns (snd (runGraph w rid n em s))
           = (activeRuns s)(rid \<mapsto> (spread_run rid s)\<lparr>run_status := Some S_complete_with_warnings,
                                                       run_sessionId := Some session\<rparr>)
         \<and> phase_starts (events_of em (added s (snd (runGraph w rid n em s))))
             = [Scout, Brain, Validate, Brief]
         \<and> filter is_error (events_of em (added s (snd (runGraph w rid n em s)))) = []
         \<and> (\<exists>pre ev. errors (fst (graph_invoke w (initial_state rid n session space em) sb))
               = pre @ [(Brain, ''OPENAI_API_KEY is not set in .env'')] @ ev
                 @ [(Brief, ''OPENAI_API_KEY is not set in .env'')])
         \<and> events_of (emit_fn st) (added s (snd (brainNode w st s)))
             = [PhaseStart Brain, TaskUpdate extract_pain_points T_running,
                PhaseWarning Brain ''OPENAI_API_KEY is not set in .env'', PhaseComplete Brain]
         \<and> u_errors (fst (brainNode w st s))
             = Some [(Brain, ''OPENAI_API_KEY is not set in .env'')]
         \<and> fst (startRun w n s) = Inr (uuidv4 w (tick s))"
proof -
  let ?k = "''OPENAI_API_KEY is not set in .env''"
  let ?g = "graph_invoke w (initial_state rid n session space em) sb"
  have g: "?g = (fst ?g, snd ?g)" by simp
  note sh = runGraph_ok_shape[OF assms(3) g]
  note ev = ok_shape_events[OF sh(1)]
  have lb: "\<not> llm_client sb" using bootstrap_llm[OF assms(1,2), of rid n em] assms(3) by simp
  from graph_invoke_no_key[OF assms(1) lb, of "initial_state rid n session space em"]
  obtain ev' where e: "errors (fst ?g)
      = errors (initial_state rid n session space em)
        @ (case u_errors (fst (scoutNode w (initial_state rid n session space em) sb)) of
             None \<Rightarrow> [] | Some v \<Rightarrow> v)
        @ [(Brain, ?k)] @ ev' @ [(Brief, ?k)]"
    by blast
  then have ne: "errors (fst ?g) \<noteq> []" by simp
  have ex: "\<exists>pre ev. errors (fst ?g) = pre @ [(Brain, ?k)] @ ev @ [(Brief, ?k)]"
    using e by (metis append.assoc)
  have st: "final_status (fst ?g) = S_complete_with_warnings"
    using ne by (simp add: final_status_def)
  have a: "activeRuns (snd (runGraph w rid n em s))
           = (activeRuns s)(rid \<mapsto> (spread_run rid s)\<lparr>run_status := Some S_complete_with_warnings,
                                                       run_sessionId := Some session\<rparr>)"
    using sh(3) by (simp add: st)
  have b: "events_of (emit_fn st) (added s (snd (brainNode w st s)))
             = [PhaseStart Brain, TaskUpdate extract_pain_points T_running,
                PhaseWarning Brain ?k, PhaseComplete Brain]"
    by (simp add: brainNode_no_key_trace[OF assms(1,2)])
  have c: "u_errors (fst (brainNode w st s)) = Some [(Brain, ?k)]"
    by (simp add: brainNode_no_key(1)[OF assms(1,2)] no_update_def)
  have d: "fst (startRun w n s) = Inr (uuidv4 w (tick s))" by (simp add: startRun_result)
  from a ev(5) ev(2)[of em] ex b c d show ?thesis by blast
qed

text \<open>Witness for the amended C6: the run that \<open>startRun\<close> starts for the niche
  "freelance designers" in the world without the Reasoning Provider credential starts
  its four phases and ends \<open>complete_with_warnings\<close>.\<close>

theorem missing_llm_key_degrades_phases_witness:
  "\<not> OPENAI_API_KEY no_openai_world
   \<and> \<not> llm_client (snd (startRun no_openai_world designers fresh_sys))
   \<and> fst (runGraph_bootstrap no_openai_world ''run-'' designers 1
          (emit 1 (RunStart designers) (snd (startRun no_openai_world designers fresh_sys))))
     = Inr (''session-1'', Some ''space-1'')
   \<and> map_option run_status
        (getActiveRun ''run-''
          (snd (runGraph no_openai_world ''run-'' designers 1
                 (snd (startRun no_openai_world designers fresh_sys)))))
     = Some (Some S_complete_with_warnings)
   \<and> phase_starts (events_of 1 (added (snd (startRun no_openai_world designers fresh_sys))
        (snd (runGraph no_openai_world ''run-'' designers 1
               (snd (startRun no_openai_world designers fresh_sys))))))
     = [Scout, Brain, Validate, Brief]"
proof -
  let ?w = no_openai_world
  let ?s = "snd (startRun ?w designers fresh_sys)"
  let ?b = "runGraph_bootstrap ?w ''run-'' designers 1 (emit 1 (RunStart designers) ?s)"
  have b: "?b = (Inr (''session-1'', Some ''space-1''), snd ?b)"
    using no_openai_bootstrap by (cases ?b) simp
  have k: "\<not> OPENAI_API_KEY ?w" by (simp add: no_openai_world_fields)
  have l: "\<not> llm_client ?s" by (simp add: no_openai_startRun)
  from missing_llm_key_degrades_phases[OF k l b] k l no_openai_bootstrap
  show ?thesis by (simp add: getActiveRun_def)
qed

text \<open>Counterexample to C6 as it is written: without the credential, the run that
  \<open>startRun\<close> queues for "freelance designers" starts its four phases and ends
  \<open>complete_with_warnings\<close>, not \<open>error\<close>.\<close>

theorem missing_llm_key_not_fatal:
  "\<not> OPENAI_API_KEY no_openai_world
   \<and> fst (startRun no_openai_world designers fresh_sys) = Inr ''run-''
   \<and> pending (snd (startRun no_openai_world designers fresh_sys))
       = [\<lparr>t_runId = ''run-'', t_niche = designers, t_emitter = 1\<rparr>]
   \<and> map_option run_status
        (getActiveRun ''run-''
          (run_task no_openai_world \<lparr>t_runId = ''run-'', t_niche = designers, t_emitter = 1\<rparr>
             (snd (startRun no_openai_world designers fresh_sys))))
     \<noteq> Some (Some S_error)
   \<and> map_option run_status
        (getActiveRun ''run-''
          (run_task no_openai_world \<lparr>t_runId = ''run-'', t_niche = designers, t_emitter = 1\<rparr>
             (snd (startRun no_openai_world designers fresh_sys))))
     = Some (Some S_complete_with_warnings)
   \<and> phase_starts (events_of 1 (added (snd (startRun no_openai_world designers fresh_sys))
        (run_task no_openai_world \<lparr>t_runId = ''run-'', t_niche = designers, t_emitter = 1\<rparr>
           (snd (startRun no_openai_world designers fresh_sys)))))
     = [Scout, Brain, Validate, Brief]"
proof -
  let ?w = no_openai_world
  let ?s = "snd (startRun ?w designers fresh_sys)"
  let ?b = "runGraph_bootstrap ?w ''run-'' designers 1 (emit 1 (RunStart designers) ?s)"
  let ?g = "graph_invoke ?w
       (initial_state ''run-'' designers ''session-1'' (Some ''space-1'') 1) (snd ?b)"
  have b: "?b = (Inr (''session-1'', Some ''space-1''), snd ?b)"
    using no_openai_bootstrap by (cases ?b) simp
  have g: "?g = (fst ?g, snd ?g)" by simp
  note sh = runGraph_ok_shape[OF b g]
  note ev = ok_shape_events[OF sh(1)]
  have k: "\<not> OPENAI_API_KEY ?w" by (simp add: no_openai_world_fields)
  from graph_invoke_no_key[OF k no_openai_bootstrap_llm,
         of "initial_state ''run-'' designers ''session-1'' (Some ''space-1'') 1"]
  obtain pre ev' where "errors (fst ?g)
      = pre @ [(Brain, ''OPENAI_API_KEY is not set in .env'')] @ ev'
        @ [(Brief, ''OPENAI_API_KEY is not set in .env'')]"
    by (metis append.assoc)
  then have "errors (fst ?g) \<noteq> []" by simp
  then have st: "final_status (fst ?g) = S_complete_with_warnings"
    by (simp add: final_status_def)
  have rt: "run_task ?w \<lparr>t_runId = ''run-'', t_niche = designers, t_emitter = 1\<rparr> ?s
            = snd (runGraph ?w ''run-'' designers 1 ?s)"
    by (simp add: run_task_eq)
  have a: "map_option run_status (getActiveRun ''run-'' (snd (runGraph ?w ''run-'' designers 1 ?s)))
           = Some (Some S_complete_with_warnings)"
    using sh(3) st by (simp add: getActiveRun_def)
  have i: "fst (startRun ?w designers fresh_sys) = Inr ''run-''"
    and p: "pending ?s = [\<lparr>t_runId = ''run-'', t_niche = designers, t_emitter = 1\<rparr>]"
    by (simp_all add: no_openai_startRun)
  have a2: "map_option run_status
              (getActiveRun ''run-'' (snd (runGraph ?w ''run-'' designers 1 ?s)))
            \<noteq> Some (Some S_error)"
    by (simp only: a) simp
  from k i p a a2 ev(5) show ?thesis unfolding rt by blast
qed

subsection \<open>Failures of the Memory Store setup\<close>

lemma createSession_trace: "trace (snd (createSession w n s)) = trace s"
  by (simp add: createSession_def andThen_def acontext_getClient_def ask_def ret_def
           split: sum.splits)

lemma createSession_client:
  "createSession w n s = (Inr session, s2) \<Longrightarrow> acontext_client s2"
  by (auto simp: createSession_def andThen_def acontext_getClient_def ask_def ret_def
           split: sum.splits if_splits)

lemma bootstrap_session_fails:
  assumes "createSession w n s = (Inl e, s2)"
  shows "runGraph_bootstrap w rid n em s = (Inl e, s2)"
  using assms by (simp add: runGraph_bootstrap_def andThen_def)

text \<open>A failure of either call of \<open>createLearningSpace\<close> is logged and answered with
  \<open>null\<close>.\<close>

lemma createLearningSpace_fails:
  assumes "acontext_client s2"
      and "learningSpaces_create w (tick s2) = Inl err
           \<or> (\<exists>sp. learningSpaces_create w (tick s2) = Inr sp
                  \<and> learningSpaces_learn w (Suc (tick s2)) = Inl err)"
  shows "fst (createLearningSpace w n session s2) = Inr None"
    and "trace (snd (createLearningSpace w n session s2))
         = trace s2 @ [Log Warn (''Learning space setup failed (non-critical): '' @ err)]"
  using assms
  by (auto simp: createLearningSpace_def andThen_def acontext_getClient_def ask_def ret_def
        logger_def)

lemma trace_writeReport: "trace (snd (writeReport w sid r s)) = trace s"
  by (simp add: writeReport_def Let_def andThen_def acontext_getClient_def ask_def ret_def
           split: sum.splits prod.splits)

lemma deref_initTaskBlocks:
  "deref (initTaskBlocks sid s) (getTaskBlocks sid (initTaskBlocks sid s)) = taskBlocks"
  by (simp add: deref_def getTaskBlocks_def initTaskBlocks_def)

lemma bootstrap_space_fails:
  assumes cs: "createSession w n (emit em (RunStart n) s) = (Inr session, s2)"
      and ls: "learningSpaces_create w (tick s2) = Inl err
           \<or> (\<exists>sp. learningSpaces_create w (tick s2) = Inr sp
                  \<and> learningSpaces_learn w (Suc (tick s2)) = Inl err)"
      and b: "runGraph_bootstrap w rid n em (emit em (RunStart n) s) = (Inr p, sb)"
  shows "p = (session, None)"
    and "added s sb
         = [Emit em (RunStart n),
            Log Warn (''Learning space setup failed (non-critical): '' @ err),
            Emit em (SessionCreated session None taskBlocks)]"
proof -
  let ?s1 = "emit em (RunStart n) s"
  obtain s3 where cl: "createLearningSpace w n session s2 = (Inr None, s3)"
    and t3: "trace s3 = trace s2 @ [Log Warn (''Learning space setup failed (non-critical): '' @ err)]"
    using createLearningSpace_fails[OF createSession_client[OF cs] ls, of n session]
    by (cases "createLearningSpace w n session s2") auto
  have t2: "trace s2 = trace s @ [Emit em (RunStart n)]"
    using createSession_trace[of w n ?s1] cs by simp
  let ?s4 = "emit em (SessionCreated session None
               (deref (initTaskBlocks session s3)
                  (getTaskBlocks session (initTaskBlocks session s3))))
               (initTaskBlocks session s3)"
  let ?rep = "empty_report\<lparr>rp_runId := Some rid, rp_niche := Some n,
                   rp_sessionId := Some session, rp_spaceId := Some None,
                   rp_status := Some S_running\<rparr>"
  have boot: "runGraph_bootstrap w rid n em ?s1
              = (case writeReport w session ?rep ?s4 of
                   (Inl e, s5) \<Rightarrow> (Inl e, s5)
                 | (Inr v, s5) \<Rightarrow> (Inr (session, None), s5))"
    by (simp add: runGraph_bootstrap_def andThen_def cs cl lift_def ret_def Let_def
             split: prod.splits sum.splits)
  obtain r s5 where wr: "writeReport w session ?rep ?s4 = (r, s5)"
    by (cases "writeReport w session ?rep ?s4")
  from b boot wr have p: "p = (session, None)" and sb: "sb = s5"
    by (cases r; simp)+
  show "p = (session, None)" by (rule p)
  have "trace sb = trace ?s4"
    using trace_writeReport[of w session ?rep ?s4] wr sb by simp
  then have "trace sb = trace s @ [Emit em (RunStart n),
            Log Warn (''Learning space setup failed (non-critical): '' @ err),
            Emit em (SessionCreated session None taskBlocks)]"
    by (simp add: t3 t2 deref_initTaskBlocks)
  then show "added s sb
         = [Emit em (RunStart n),
            Log Warn (''Learning space setup failed (non-critical): '' @ err),
            Emit em (SessionCreated session None taskBlocks)]"
    by (rule added_append)
qed

lemma session_fails_added:
  assumes "createSession w n (emit em (RunStart n) s) = (Inl e, s2)"
  shows "added s (snd (runGraph w rid n em s)) = [Emit em (RunStart n),
          Log Err (''Graph fatal error: '' @ e), Emit em (ErrorEvent e),
          Emit em (Done None None None), RegistrySet rid (Some S_error)]"
proof -
  have b: "runGraph_bootstrap w rid n em (emit em (RunStart n) s) = (Inl e, s2)"
    by (rule bootstrap_session_fails[OF assms])
  have t2: "trace s2 = trace s @ [Emit em (RunStart n)]"
    using createSession_trace[of w n "emit em (RunStart n) s"] assms by simp
  have "trace (snd (runGraph w rid n em s)) = trace s @ [Emit em (RunStart n),
          Log Err (''Graph fatal error: '' @ e), Emit em (ErrorEvent e),
          Emit em (Done None None None), RegistrySet rid (Some S_error)]"
    by (simp add: runGraph_fatal[OF b] runGraph_catch_trace t2)
  then show ?thesis by (rule added_append)
qed

lemma spaceId_graph: "spaceId (fst (graph_invoke w st s)) = spaceId st"
  by (simp add: graph_invoke_def run_nodes_graph Let_def merge_def)

text \<open>
  C7 (amended). The setup of the Memory Store runs before the first phase. A failure
  of creating the session is fatal for the run: its events are \<open>run_start\<close>, \<open>error\<close>
  and \<open>done\<close>, no phase starts, and its status becomes \<open>error\<close>. A failure of
  setting up the learning space (of either call) is not: it is logged as a warning,
  \<open>session_created\<close> carries no space, and, if the first write of the report
  succeeds too, all four phases start with an absent space identifier, no \<open>error\<close>
  event is emitted and the run ends \<open>complete\<close> or \<open>complete_with_warnings\<close>.
\<close>

theorem learning_space_failure_is_not_fatal:
  "(createSession w n (emit em (RunStart n) s) = (Inl e, s2) \<longrightarrow>
      events_of em (added s (snd (runGraph w rid n em s)))
        = [RunStart n, ErrorEvent e, Done None None None]
      \<and> activeRuns (snd (runGraph w rid n em s))
        = (activeRuns s)(rid \<mapsto> (spread_run rid s)\<lparr>run_status := Some S_error\<rparr>))
   \<and> (createSession w n (emit em (RunStart n) s) = (Inr session, s2)
      \<and> (learningSpaces_create w (tick s2) = Inl err
           \<or> (\<exists>sp. learningSpaces_create w (tick s2) = Inr sp
                  \<and> learningSpaces_learn w (Suc (tick s2)) = Inl err))
      \<and> runGraph_bootstrap w rid n em (emit em (RunStart n) s) = (Inr p, sb)
      \<longrightarrow>
      p = (session, None)
      \<and> added s sb
          = [Emit em (RunStart n),
             Log Warn (''Learning space setup failed (non-critical): '' @ err),
             Emit em (SessionCreated session None taskBlocks)]
      \<and> spaceId (initial_state rid n session (snd p) em) = None
      \<and> spaceId (fst (graph_invoke w (initial_state rid n session (snd p) em) sb)) = None
      \<and> phase_starts (events_of em (added s (snd (runGraph w rid n em s))))
          = [Scout, Brain, Validate, Brief]
      \<and> filter is_error (events_of em (added s (snd (runGraph w rid n em s)))) = []
      \<and> activeRuns (snd (runGraph w rid n em s))
          = (activeRuns s)(rid \<mapsto> (spread_run rid s)
               \<lparr>run_status := Some (if errors (fst (graph_invoke w
                                          (initial_state rid n session None em) sb)) = []
                                     then S_complete else S_complete_with_warnings),
                run_sessionId := Some session\<rparr>))"
proof (intro conjI impI)
  assume cs: "createSession w n (emit em (RunStart n) s) = (Inl e, s2)"
  have b: "runGraph_bootstrap w rid n em (emit em (RunStart n) s) = (Inl e, s2)"
    by (rule bootstrap_session_fails[OF cs])
  have "added s (snd (runGraph w rid n em s)) = [Emit em (RunStart n),
          Log Err (''Graph fatal error: '' @ e), Emit em (ErrorEvent e),
          Emit em (Done None None None), RegistrySet rid (Some S_error)]"
    by (rule session_fails_added[OF cs])
  then show "events_of em (added s (snd (runGraph w rid n em s)))
        = [RunStart n, ErrorEvent e, Done None None None]"
    by simp
  show "activeRuns (snd (runGraph w rid n em s))
        = (activeRuns s)(rid \<mapsto> (spread_run rid s)\<lparr>run_status := Some S_error\<rparr>)"
    by (rule runGraph_fatal_shape(3)[OF b])
next
  assume a: "createSession w n (emit em (RunStart n) s) = (Inr session, s2)
      \<and> (learningSpaces_create w (tick s2) = Inl err
           \<or> (\<exists>sp. learningSpaces_create w (tick s2) = Inr sp
                  \<and> learningSpaces_learn w (Suc (tick s2)) = Inl err))
      \<and> runGraph_bootstrap w rid n em (emit em (RunStart n) s) = (Inr p, sb)"
  then have cs: "createSession w n (emit em (RunStart n) s) = (Inr session, s2)"
    and ls: "learningSpaces_create w (tick s2) = Inl err
           \<or> (\<exists>sp. learningSpaces_create w (tick s2) = Inr sp
                  \<and> learningSpaces_learn w (Suc (tick s2)) = Inl err)"
    and b: "runGraph_bootstrap w rid n em (emit em (RunStart n) s) = (Inr p, sb)"
    by blast+
  note sp = bootstrap_space_fails[OF cs ls b]
  show p: "p = (session, None)" by (rule sp(1))
  show "added s sb
          = [Emit em (RunStart n),
             Log Warn (''Learning space setup failed (non-critical): '' @ err),
             Emit em (SessionCreated session None taskBlocks)]"
    by (rule sp(2))
  show "spaceId (initial_state rid n session (snd p) em) = None"
    by (simp add: p initial_state_def)
  show "spaceId (fst (graph_invoke w (initial_state rid n session (snd p) em) sb)) = None"
    by (simp add: spaceId_graph p initial_state_def)
  let ?g = "graph_invoke w (initial_state rid n session None em) sb"
  have g: "?g = (fst ?g, snd ?g)" by simp
  note sh = runGraph_ok_shape[OF b[unfolded p] g]
  note ev = ok_shape_events[OF sh(1)]
  show "phase_starts (events_of em (added s (snd (runGraph w rid n em s))))
          = [Scout, Brain, Validate, Brief]"
    by (rule ev(5))
  show "filter is_error (events_of em (added s (snd (runGraph w rid n em s)))) = []"
    by (rule ev(2))
  show "activeRuns (snd (runGraph w rid n em s))
          = (activeRuns s)(rid \<mapsto> (spread_run rid s)
               \<lparr>run_status := Some (if errors (fst ?g) = []
                                     then S_complete else S_complete_with_warnings),
                run_sessionId := Some session\<rparr>)"
    using sh(3) by (simp add: final_status_def)
qed

lemma no_session_world_fields:
  "ACONTEXT_API_KEY no_session_world = True"
  "uuidv4 no_session_world = (\<lambda>t. ''run-'' @ replicate t CHR ''x'')"
  "Date_now no_session_world = (\<lambda>t. 1000 + t)"
  "sessions_create no_session_world = (\<lambda>t. Inl ''sessions.create failed'')"
  by (simp_all add: no_session_world_def calm_world_def)

lemma no_space_world_fields:
  "ACONTEXT_API_KEY no_space_world = True"
  "uuidv4 no_space_world = (\<lambda>t. ''run-'' @ replicate t CHR ''x'')"
  "Date_now no_space_world = (\<lambda>t. 1000 + t)"
  "sessions_create no_space_world = (\<lambda>t. Inr ''session-1'')"
  "sessions_storeMessage no_space_world = (\<lambda>t. Inr ())"
  "learningSpaces_create no_space_world = (\<lambda>t. Inl ''learningSpaces.create failed'')"
  by (simp_all add: no_space_world_def calm_world_def)

lemma no_session_startRun:
  "startRun no_session_world designers fresh_sys
   = (Inr ''run-'',
      \<lparr>tick = 3,
       activeRuns = [''run-'' \<mapsto> \<lparr>run_emitter = Some 1, run_status = Some S_running,
                                  run_niche = Some designers, run_startedAt = Some 1002,
                                  run_sessionId = None\<rparr>],
       reportStore = Map.empty, taskState = Map.empty, blocksHeap = Map.empty,
       llm_client = False, acontext_client = False,
       pending = [\<lparr>t_runId = ''run-'', t_niche = designers, t_emitter = 1\<rparr>],
       trace = [RegistrySet ''run-'' (Some S_running)]\<rparr>)"
  by (simp add: startRun_def ask_def new_EventEmitter_def activeRuns_set_def Let_def
        fresh_sys_def no_session_world_fields numeral_3_eq_3)

lemma no_space_startRun:
  "startRun no_space_world designers fresh_sys
   = (Inr ''run-'',
      \<lparr>tick = 3,
       activeRuns = [''run-'' \<mapsto> \<lparr>run_emitter = Some 1, run_status = Some S_running,
                                  run_niche = Some designers, run_startedAt = Some 1002,
                                  run_sessionId = None\<rparr>],
       reportStore = Map.empty, taskState = Map.empty, blocksHeap = Map.empty,
       llm_client = False, acontext_client = False,
       pending = [\<lparr>t_runId = ''run-'', t_niche = designers, t_emitter = 1\<rparr>],
       trace = [RegistrySet ''run-'' (Some S_running)]\<rparr>)"
  by (simp add: startRun_def ask_def new_EventEmitter_def activeRuns_set_def Let_def
        fresh_sys_def no_space_world_fields numeral_3_eq_3)

lemma no_session_createSession:
  "fst (createSession no_session_world designers
          (emit 1 (RunStart designers) (snd (startRun no_session_world designers fresh_sys))))
   = Inl ''sessions.create failed''"
  by (simp add: no_session_startRun createSession_def andThen_def acontext_getClient_def
        ask_def ret_def emit_def no_session_world_fields)

lemma no_space_createSession:
  "fst (createSession no_space_world designers
          (emit 1 (RunStart designers) (snd (startRun no_space_world designers fresh_sys))))
   = Inr ''session-1''"
  by (simp add: no_space_startRun createSession_def andThen_def acontext_getClient_def
        ask_def ret_def emit_def no_space_world_fields)

lemma no_space_bootstrap:
  "fst (runGraph_bootstrap no_space_world ''run-'' designers 1
          (emit 1 (RunStart designers) (snd (startRun no_space_world designers fresh_sys))))
   = Inr (''session-1'', None)"
  by (simp add: no_space_startRun boot_defs no_space_world_fields)

text \<open>Witness for the amended C7: in the world whose \<open>sessions.create\<close> fails the run
  ends with \<open>error\<close> after \<open>run_start\<close>, \<open>error\<close>, \<open>done\<close>; in the world whose
  \<open>learningSpaces.create\<close> fails the run starts its four phases without a space.\<close>

theorem learning_space_failure_is_not_fatal_witness:
  "fst (createSession no_session_world designers
          (emit 1 (RunStart designers) (snd (startRun no_session_world designers fresh_sys))))
     = Inl ''sessions.create failed''
   \<and> events_of 1 (added (snd (startRun no_session_world designers fresh_sys))
        (snd (runGraph no_session_world ''run-'' designers 1
               (snd (startRun no_session_world designers fresh_sys)))))
     = [RunStart designers, ErrorEvent ''sessions.create failed'', Done None None None]
   \<and> fst (createSession no_space_world designers
          (emit 1 (RunStart designers) (snd (startRun no_space_world designers fresh_sys))))
     = Inr ''session-1''
   \<and> learningSpaces_create no_space_world
        (tick (snd (createSession no_space_world designers
          (emit 1 (RunStart designers) (snd (startRun no_space_world designers fresh_sys))))))
     = Inl ''learningSpaces.create failed''
   \<and> fst (runGraph_bootstrap no_space_world ''run-'' designers 1
          (emit 1 (RunStart designers) (snd (startRun no_space_world designers fresh_sys))))
     = Inr (''session-1'', None)
   \<and> phase_starts (events_of 1 (added (snd (startRun no_space_world designers fresh_sys))
        (snd (runGraph no_space_world ''run-'' designers 1
               (snd (startRun no_space_world designers fresh_sys))))))
     = [Scout, Brain, Validate, Brief]
   \<and> filter is_error (events_of 1 (added (snd (startRun no_space_world designers fresh_sys))
        (snd (runGraph no_space_world ''run-'' designers 1
               (snd (startRun no_space_world designers fresh_sys))))))
     = []"
proof -
  let ?w1 = no_session_world and ?w2 = no_space_world
  let ?s1 = "snd (startRun ?w1 designers fresh_sys)"
  let ?s2 = "snd (startRun ?w2 designers fresh_sys)"
  let ?c1 = "createSession ?w1 designers (emit 1 (RunStart designers) ?s1)"
  let ?c2 = "createSession ?w2 designers (emit 1 (RunStart designers) ?s2)"
  let ?b2 = "runGraph_bootstrap ?w2 ''run-'' designers 1 (emit 1 (RunStart designers) ?s2)"
  have c1: "?c1 = (Inl ''sessions.create failed'', snd ?c1)"
    using no_session_createSession by (cases ?c1) simp
  have c2: "?c2 = (Inr ''session-1'', snd ?c2)"
    using no_space_createSession by (cases ?c2) simp
  have l2: "learningSpaces_create ?w2 (tick (snd ?c2)) = Inl ''learningSpaces.create failed''"
    by (simp add: no_space_world_fields)
  have b2: "?b2 = (Inr (''session-1'', None), snd ?b2)"
    using no_space_bootstrap by (cases ?b2) simp
  note T1 = learning_space_failure_is_not_fatal[of ?w1 designers 1 ?s1
              "''sessions.create failed''" "snd ?c1" "''run-''"]
  note T2 = learning_space_failure_is_not_fatal[of ?w2 designers 1 ?s2 _ "snd ?c2" "''run-''"
              "''session-1''" "''learningSpaces.create failed''" "(''session-1'', None)"
              "snd ?b2"]
  from T1 c1 have e1: "events_of 1 (added ?s1 (snd (runGraph ?w1 ''run-'' designers 1 ?s1)))
     = [RunStart designers, ErrorEvent ''sessions.create failed'', Done None None None]"
    by blast
  from T2 c2 l2 b2 have e2: "phase_starts (events_of 1 (added ?s2
        (snd (runGraph ?w2 ''run-'' designers 1 ?s2)))) = [Scout, Brain, Validate, Brief]
     \<and> filter is_error (events_of 1 (added ?s2
        (snd (runGraph ?w2 ''run-'' designers 1 ?s2)))) = []"
    by blast
  from no_session_createSession e1 no_space_createSession l2 no_space_bootstrap e2
  show ?thesis by blast
qed

text \<open>Counterexample to C7 as it is written: when \<open>sessions.create\<close> fails, the
  run that \<open>startRun\<close> queues ends with \<open>error\<close> and starts no phase.\<close>

theorem session_failure_is_fatal:
  "fst (createSession no_session_world designers
          (emit 1 (RunStart designers) (snd (startRun no_session_world designers fresh_sys))))
     = Inl ''sessions.create failed''
   \<and> events_of 1 (added (snd (startRun no_session_world designers fresh_sys))
        (run_task no_session_world \<lparr>t_runId = ''run-'', t_niche = designers, t_emitter = 1\<rparr>
           (snd (startRun no_session_world designers fresh_sys))))
     = [RunStart designers, ErrorEvent ''sessions.create failed'', Done None None None]
   \<and> phase_starts (events_of 1 (added (snd (startRun no_session_world designers fresh_sys))
        (run_task no_session_world \<lparr>t_runId = ''run-'', t_niche = designers, t_emitter = 1\<rparr>
           (snd (startRun no_session_world designers fresh_sys)))))
     = []
   \<and> map_option run_status
        (getActiveRun ''run-''
          (run_task no_session_world \<lparr>t_runId = ''run-'', t_niche = designers, t_emitter = 1\<rparr>
             (snd (startRun no_session_world designers fresh_sys))))
     = Some (Some S_error)"
proof -
  let ?w = no_session_world
  let ?s = "snd (startRun ?w designers fresh_sys)"
  let ?c = "createSession ?w designers (emit 1 (RunStart designers) ?s)"
  let ?e = "''sessions.create failed''"
  have c: "?c = (Inl ?e, snd ?c)" using no_session_createSession by (cases ?c) simp
  have b: "runGraph_bootstrap ?w ''run-'' designers 1 (emit 1 (RunStart designers) ?s)
           = (Inl ?e, snd ?c)"
    by (rule bootstrap_session_fails[OF c])
  note ad = session_fails_added[OF c, of "''run-''"]
  have rt: "run_task ?w \<lparr>t_runId = ''run-'', t_niche = designers, t_emitter = 1\<rparr> ?s
            = snd (runGraph ?w ''run-'' designers 1 ?s)"
    by (simp add: run_task_eq)
  have e: "events_of 1 (added ?s (snd (runGraph ?w ''run-'' designers 1 ?s)))
           = [RunStart designers, ErrorEvent ?e, Done None None None]"
    using ad by simp
  have ph: "phase_starts (events_of 1 (added ?s (snd (runGraph ?w ''run-'' designers 1 ?s))))
            = []"
    using ad by simp
  have st: "map_option run_status
             (getActiveRun ''run-'' (snd (runGraph ?w ''run-'' designers 1 ?s)))
            = Some (Some S_error)"
    using runGraph_fatal_shape(3)[OF b] by (simp add: getActiveRun_def)
  from no_session_createSession e ph st show ?thesis unfolding rt by blast
qed

end
